theory Spec2Isabelle
  imports Main "HOL-Library.Sublist"
begin

section \<open>Python values used by the detector\<close>

text \<open>
  A Python \<open>str\<close> is a \<^typ>\<open>string\<close>: the characters of its UTF-8 encoding, one
  \<^typ>\<open>char\<close> per byte. Equality, concatenation, substring search, \<open>str.replace\<close>
  and \<open>endswith\<close> agree with Python on this representation.
\<close>

definition backslash :: char where
  "backslash = CHR 0x5C"

definition newline :: char where
  "newline = CHR 0x0A"

definition digit_char :: "nat \<Rightarrow> char" where
  "digit_char d = ''0123456789'' ! d"

text \<open>\<open>str(n)\<close> for a non-negative integer: its decimal digits.\<close>

function str_nat :: "nat \<Rightarrow> string" where
  "str_nat n = (if n < 10 then [digit_char n] else str_nat (n div 10) @ [digit_char (n mod 10)])"
  by pat_completeness auto
termination
  by (relation "measure id") auto

text \<open>\<open>str(i)\<close> for an integer.\<close>

definition str_int :: "int \<Rightarrow> string" where
  "str_int i = (if i < 0 then CHR ''-'' # str_nat (nat (- i)) else str_nat (nat i))"

text \<open>
  \<open>s.replace(old, new)\<close>: every non-overlapping occurrence of \<open>old\<close>, found from the
  left, is replaced; an empty \<open>old\<close> matches before every character and at the end.
\<close>

function py_replace :: "string \<Rightarrow> string \<Rightarrow> string \<Rightarrow> string" where
  "py_replace old new [] = (if old = [] then new else [])"
| "py_replace old new (c # cs) =
     (if old = [] then new @ c # py_replace old new cs
      else if prefix old (c # cs) then new @ py_replace old new (drop (length old) (c # cs))
      else c # py_replace old new cs)"
  by pat_completeness auto
termination
  by (relation "measure (\<lambda>(old, new, s). length s)") auto

text \<open>
  The exceptions the source can let through. A function that may raise returns
  \<open>Inl\<close> of the exception or \<open>Inr\<close> of its value.
\<close>

datatype pyerr =
    AttributeError | TypeError | KeyError | IndexError | ParserError
  | OverflowError | RecursionError

text \<open>Sequencing: an exception ends the computation.\<close>

definition ebind :: "pyerr + 'a \<Rightarrow> ('a \<Rightarrow> pyerr + 'b) \<Rightarrow> pyerr + 'b" where
  "ebind m f = (case m of Inl e \<Rightarrow> Inl e | Inr x \<Rightarrow> f x)"

section \<open>Pattern helpers of \<open>TechDetector\<close> (analyzer.py)\<close>

subsection \<open>\<open>_strip_wappalyzer_pattern\<close>\<close>

text \<open>
  The source is \<^verbatim>\<open>re.sub(r"\\;.*$", "", pattern)\<close>. The regular expression is a
  backslash, a semicolon, then \<open>.*\<close> (no flag is given, so \<open>.\<close> does not match a
  newline) and \<open>$\<close> (the end of the string, or the position just before a newline that
  is the last character). At a backslash-semicolon the greedy \<open>.*\<close> runs to the next
  newline or to the end; \<open>$\<close> holds there exactly when what remains is empty or is one
  final newline, and no shorter \<open>.*\<close> can satisfy \<open>$\<close>. A match is replaced by the empty
  string and what remains (nothing, or the final newline) is kept; where there is no
  match the scan moves on by one character.
\<close>

definition rest_of_line :: "string \<Rightarrow> string" where
  "rest_of_line t = dropWhile (\<lambda>x. x \<noteq> newline) t"

definition dollar_here :: "string \<Rightarrow> bool" where
  "dollar_here r \<longleftrightarrow> r = [] \<or> r = [newline]"

fun strip_wappalyzer_pattern :: "string \<Rightarrow> string" where
  "strip_wappalyzer_pattern [] = []"
| "strip_wappalyzer_pattern (c # cs) =
     (case cs of
        [] \<Rightarrow> [c]
      | d # t \<Rightarrow>
          if c = backslash \<and> d = CHR '';'' \<and> dollar_here (rest_of_line t)
          then rest_of_line t
          else c # strip_wappalyzer_pattern cs)"

subsection \<open>The regular-expression engine\<close>

text \<open>
  \<^verbatim>\<open>re.search(pat, text, re.IGNORECASE)\<close> is Python's library and is a parameter of
  the model. Its four outcomes are the ones the source tells apart. \<open>re.error\<close>: the
  pattern does not compile, and the source catches the exception. Another exception,
  which the source does not catch: \<open>OverflowError\<close> for a repetition count beyond the
  maximum of the library (\<^verbatim>\<open>a{4294967296}\<close>), \<open>RecursionError\<close> for a pattern nested
  too deeply; neither is a subclass of \<open>re.error\<close>. \<open>None\<close>: no match. A match
  object, of which the source reads \<open>groups()\<close>: one entry per capturing group of the
  pattern, \<open>None\<close> for a group that did not take part in the match.
\<close>

datatype re_result = ReError | Raises pyerr | NoMatch | Match "string option list"

type_synonym regex_engine = "string \<Rightarrow> string \<Rightarrow> re_result"

text \<open>
  A fingerprint value (\<open>patterns: Any\<close> in the source) has one of the three shapes the
  source branches on with \<open>isinstance\<close>: a string, a list of strings, or a mapping from
  pattern to version template, whose items are kept in the mapping's order. The empty
  string, list and mapping stand for every false value. A true value of another type (a
  number, \<open>True\<close>) is outside the model: the fingerprint data has none.
\<close>

datatype pattern_spec =
    PStr string
  | PList "string list"
  | PDict "(string \<times> string) list"

text \<open>\<open>not patterns\<close>: the empty string, list and mapping are false.\<close>

fun spec_empty :: "pattern_spec \<Rightarrow> bool" where
  "spec_empty (PStr s) = (s = [])"
| "spec_empty (PList ps) = (ps = [])"
| "spec_empty (PDict es) = (es = [])"

subsection \<open>\<open>_check_pattern\<close>\<close>

text \<open>
  The loop \<open>for pattern in patterns\<close>: \<open>re.error\<close> continues, a match returns, and
  any other exception of \<open>re.search\<close> leaves the loop and the function.
\<close>

fun search_any :: "regex_engine \<Rightarrow> string \<Rightarrow> string list \<Rightarrow> pyerr + bool" where
  "search_any rx text [] = Inr False"
| "search_any rx text (pattern # rest) =
     (case rx (strip_wappalyzer_pattern pattern) text of
        ReError \<Rightarrow> search_any rx text rest
      | Raises e \<Rightarrow> Inl e
      | NoMatch \<Rightarrow> search_any rx text rest
      | Match gs \<Rightarrow> Inr True)"

definition check_pattern :: "regex_engine \<Rightarrow> string \<Rightarrow> pattern_spec \<Rightarrow> pyerr + bool" where
  "check_pattern rx text patterns =
     (if text = [] \<or> spec_empty patterns then Inr False
      else search_any rx text
             (case patterns of
                PStr s \<Rightarrow> [s]
              | PDict es \<Rightarrow> map fst es
              | PList ps \<Rightarrow> ps))"

subsection \<open>\<open>_check_pattern_with_version\<close>\<close>

text \<open>
  \<^verbatim>\<open>for i, group in enumerate(match.groups(), 1): if group: version =
  version.replace(f"\\{i}", group)\<close>: the groups are taken in turn, and each replacement
  works on the string the previous ones produced.
\<close>

fun fill_version :: "nat \<Rightarrow> string option list \<Rightarrow> string \<Rightarrow> string" where
  "fill_version i [] version = version"
| "fill_version i (grp # grps) version =
     fill_version (Suc i) grps
       (case grp of
          None \<Rightarrow> version
        | Some g \<Rightarrow> if g = [] then version else py_replace (backslash # str_nat i) g version)"

fun search_versioned ::
  "regex_engine \<Rightarrow> string \<Rightarrow> (string \<times> string) list \<Rightarrow> pyerr + bool \<times> string option" where
  "search_versioned rx text [] = Inr (False, None)"
| "search_versioned rx text ((pattern, version_info) # rest) =
     (case rx (strip_wappalyzer_pattern pattern) text of
        ReError \<Rightarrow> search_versioned rx text rest
      | Raises e \<Rightarrow> Inl e
      | NoMatch \<Rightarrow> search_versioned rx text rest
      | Match gs \<Rightarrow>
          if gs \<noteq> [] \<and> version_info \<noteq> []
          then Inr (True, Some (fill_version 1 gs version_info))
          else Inr (True, None))"

definition check_pattern_with_version ::
  "regex_engine \<Rightarrow> string \<Rightarrow> pattern_spec \<Rightarrow> pyerr + bool \<times> string option" where
  "check_pattern_with_version rx text patterns =
     (if text = [] \<or> spec_empty patterns then Inr (False, None)
      else case patterns of
             PDict es \<Rightarrow> search_versioned rx text es
           | PStr s \<Rightarrow> ebind (search_any rx text [s]) (\<lambda>found. Inr (found, None))
           | PList ps \<Rightarrow> ebind (search_any rx text ps) (\<lambda>found. Inr (found, None)))"

section \<open>JSON values, the HTML parser and the outside world\<close>

text \<open>
  What \<open>json.load\<close> returns. An object lists its items in the order of the file; its
  keys are distinct, as they are in a Python \<open>dict\<close>. Numbers are integers here: the
  source only tests the truth of a number and never computes with one.
\<close>

datatype jval =
    JNull
  | JBool bool
  | JNum int
  | JStr string
  | JArr "jval list"
  | JObj "(string \<times> jval) list"

text \<open>
  \<^verbatim>\<open>BeautifulSoup(markup, parser)\<close> is a library and a parameter of the model: it
  returns the tags of the document in document order, or raises (\<open>None\<close>). Of a tag
  the source reads its name, its attributes (\<open>tag.get\<close>) and \<open>tag.string\<close>.
\<close>

datatype parser = Lxml | HtmlParser

record tag =
  tag_name :: string
  tag_attrs :: "(string \<times> string) list"
  tag_string :: "string option"

type_synonym soup = "tag list"

text \<open>The three fingerprint tables, as \<open>data_loader\<close> hands them to the detector.\<close>

record technology =
  tech_url :: "pattern_spec option"
  tech_html :: "pattern_spec option"
  tech_scripts :: "pattern_spec option"
  tech_headers :: "(string \<times> pattern_spec) list option"
  tech_cookies :: "(string \<times> pattern_spec) list option"
  tech_meta :: "(string \<times> pattern_spec) list option"
  tech_dns :: "(string \<times> pattern_spec) list option"
  tech_certIssuer :: "pattern_spec option"
  tech_cats :: "int list option"

text \<open>
  An entry of a table is a \<open>dict\<close> or something else; the source tests
  \<open>isinstance(..., dict)\<close> and skips the rest. A field is \<open>None\<close> when the key is
  absent from the entry.
\<close>

datatype tech_entry = TechDict technology | TechOther

record category =
  cat_name :: "string option"
  cat_groups :: "int list option"

datatype cat_entry = CatDict category | CatOther

datatype grp_entry = GrpDict "string option" | GrpOther

text \<open>
  Everything outside the repository's code. Python iterates a \<open>set\<close> in an order of
  its own, fixed by the sequence of insertions within one run: \<open>int_set_order\<close> and
  \<open>str_set_order\<close> take the insertions in program order and give the iteration order.
  \<open>read_json\<close> is \<open>Path(p).open\<close> followed by \<open>json.load\<close>, \<open>None\<close> when either raises.
  \<open>py_repr\<close> is the text Python prints for a list or a dict.
\<close>

record world =
  re_search :: regex_engine
  bs4 :: "parser \<Rightarrow> jval \<Rightarrow> soup option"
  int_set_order :: "int list \<Rightarrow> int list"
  str_set_order :: "string list \<Rightarrow> string list"
  read_json :: "string \<Rightarrow> jval option"
  py_repr :: "jval \<Rightarrow> string"
  load_technologies :: "(string \<times> tech_entry) list"
  load_categories :: "(string \<times> cat_entry) list"
  load_groups :: "(string \<times> grp_entry) list"

section \<open>\<open>TechDetector\<close> (analyzer.py)\<close>

text \<open>The value stored in \<open>self.detected\<close> for a technology, and one result.\<close>

record det_data =
  det_versions :: "string list"
  det_confidence :: nat
  det_matches :: "string list"
  det_categories :: "int list"

record detection =
  name :: string
  confidence :: nat
  versions :: "string list"
  categories :: "string list"
  groups :: "string list"

record engine =
  technologies :: "(string \<times> tech_entry) list"
  categories_tab :: "(string \<times> cat_entry) list"
  groups_tab :: "(string \<times> grp_entry) list"
  detected :: "(string \<times> det_data) list"

text \<open>The keyword arguments of \<open>analyze\<close>; \<open>None\<close> is the default of the optional ones.\<close>

record signals =
  sig_url :: string
  sig_html :: string
  sig_headers :: "(string \<times> string) list option"
  sig_cookies :: "(string \<times> string) list option"
  sig_scripts :: "string list option"
  sig_meta :: "(string \<times> string) list option"
  sig_dns :: "(string \<times> string list) list option"
  sig_certIssuer :: string

text \<open>\<open>d[k] = v\<close> on a \<open>dict\<close> kept as its list of items: a present key keeps its place.\<close>

fun dict_set :: "('k \<times> 'v) list \<Rightarrow> 'k \<Rightarrow> 'v \<Rightarrow> ('k \<times> 'v) list" where
  "dict_set [] k v = [(k, v)]"
| "dict_set ((k', v') # rest) k v =
     (if k' = k then (k, v) # rest else (k', v') # dict_set rest k v)"

text \<open>\<open>str.lower\<close> and \<open>str.upper\<close>, on the ASCII letters.\<close>

definition lower_char :: "char \<Rightarrow> char" where
  "lower_char c =
     (if 65 \<le> (of_char c :: nat) \<and> (of_char c :: nat) \<le> 90 then char_of ((of_char c :: nat) + 32) else c)"

definition upper_char :: "char \<Rightarrow> char" where
  "upper_char c =
     (if 97 \<le> (of_char c :: nat) \<and> (of_char c :: nat) \<le> 122 then char_of ((of_char c :: nat) - 32) else c)"

definition py_lower :: "string \<Rightarrow> string" where
  "py_lower s = map lower_char s"

definition py_upper :: "string \<Rightarrow> string" where
  "py_upper s = map upper_char s"

subsection \<open>The checks of one technology\<close>

text \<open>
  Each check yields the labels it appends to \<open>matches\<close> and the strings it adds to
  \<open>versions\<close>, both in program order, or the exception that a pattern check let
  through.
\<close>

type_synonym hits = "string list \<times> string list"

definition no_hits :: hits where
  "no_hits = ([], [])"

text \<open>
  Checks made one after the other: the first exception ends them; otherwise the labels
  and the versions are collected in program order.
\<close>

fun all_hits :: "(pyerr + hits) list \<Rightarrow> pyerr + hits" where
  "all_hits [] = Inr no_hits"
| "all_hits (h # hs) =
     ebind h (\<lambda>a. ebind (all_hits hs) (\<lambda>b. Inr (fst a @ fst b, snd a @ snd b)))"

text \<open>
  \<^verbatim>\<open>matched, version = self._check_pattern_with_version(text, patterns)\<close>, then
  \<^verbatim>\<open>if matched: matches.append(label); if version: versions.add(version)\<close>.
\<close>

definition versioned_hit ::
  "regex_engine \<Rightarrow> string \<Rightarrow> string \<Rightarrow> pattern_spec \<Rightarrow> pyerr + hits" where
  "versioned_hit rx label text patterns =
     ebind (check_pattern_with_version rx text patterns)
       (\<lambda>(matched, version).
          Inr (if matched
               then ([label], case version of None \<Rightarrow> [] | Some v \<Rightarrow> if v = [] then [] else [v])
               else no_hits))"

definition plain_hit ::
  "regex_engine \<Rightarrow> string \<Rightarrow> string \<Rightarrow> pattern_spec \<Rightarrow> pyerr + hits" where
  "plain_hit rx label text patterns =
     ebind (check_pattern rx text patterns)
       (\<lambda>matched. Inr (if matched then ([label], []) else no_hits))"

definition check_url :: "regex_engine \<Rightarrow> signals \<Rightarrow> technology \<Rightarrow> pyerr + hits" where
  "check_url rx s t =
     (case tech_url t of
        Some p \<Rightarrow> if sig_url s \<noteq> [] then plain_hit rx ''url'' (sig_url s) p else Inr no_hits
      | None \<Rightarrow> Inr no_hits)"

definition check_html :: "regex_engine \<Rightarrow> signals \<Rightarrow> technology \<Rightarrow> pyerr + hits" where
  "check_html rx s t =
     (case tech_html t of
        Some p \<Rightarrow>
          if sig_html s \<noteq> [] then versioned_hit rx ''html'' (sig_html s) p else Inr no_hits
      | None \<Rightarrow> Inr no_hits)"

text \<open>
  \<^verbatim>\<open>soup.find_all("script", src=True)\<close>: the script tags that carry a \<open>src\<close>
  attribute, then \<^verbatim>\<open>script_tag.get("src", "") or ""\<close>.
\<close>

definition script_srcs :: "soup \<Rightarrow> string list" where
  "script_srcs sp =
     map (\<lambda>tg. case map_of (tag_attrs tg) ''src'' of Some v \<Rightarrow> v | None \<Rightarrow> [])
       (filter (\<lambda>tg. tag_name tg = ''script'' \<and> map_of (tag_attrs tg) ''src'' \<noteq> None) sp)"

definition check_html_scripts ::
  "regex_engine \<Rightarrow> soup option \<Rightarrow> technology \<Rightarrow> pyerr + hits" where
  "check_html_scripts rx sp t =
     (case (sp, tech_scripts t) of
        (Some doc, Some p) \<Rightarrow>
          all_hits (map (\<lambda>src. versioned_hit rx ''scripts'' src p) (script_srcs doc))
      | _ \<Rightarrow> Inr no_hits)"

definition check_scripts :: "regex_engine \<Rightarrow> string list \<Rightarrow> technology \<Rightarrow> pyerr + hits" where
  "check_scripts rx scripts t =
     (case tech_scripts t of
        Some p \<Rightarrow> all_hits (map (\<lambda>script. versioned_hit rx ''scripts'' script p) scripts)
      | None \<Rightarrow> Inr no_hits)"

text \<open>
  \<^verbatim>\<open>headers.get(header_name) or headers.get(header_name.lower()) or ""\<close>: the first
  of the two look-ups that gives a non-empty string.
\<close>

definition header_lookup :: "(string \<times> string) list \<Rightarrow> string \<Rightarrow> string" where
  "header_lookup headers header_name =
     (case map_of headers header_name of
        Some v \<Rightarrow>
          if v \<noteq> [] then v
          else (case map_of headers (py_lower header_name) of Some w \<Rightarrow> w | None \<Rightarrow> [])
      | None \<Rightarrow> (case map_of headers (py_lower header_name) of Some w \<Rightarrow> w | None \<Rightarrow> []))"

definition check_headers ::
  "regex_engine \<Rightarrow> (string \<times> string) list \<Rightarrow> technology \<Rightarrow> pyerr + hits" where
  "check_headers rx headers t =
     (case tech_headers t of
        Some hp \<Rightarrow>
          if headers = [] then Inr no_hits
          else all_hits
                 (map (\<lambda>(header_name, header_patterns).
                         if header_lookup headers header_name \<noteq> []
                         then versioned_hit rx (''headers:'' @ header_name)
                                (header_lookup headers header_name) header_patterns
                         else Inr no_hits) hp)
      | None \<Rightarrow> Inr no_hits)"

definition dict_get :: "(string \<times> 'v) list \<Rightarrow> string \<Rightarrow> 'v \<Rightarrow> 'v" where
  "dict_get d k dflt = (case map_of d k of Some v \<Rightarrow> v | None \<Rightarrow> dflt)"

definition check_cookies ::
  "regex_engine \<Rightarrow> (string \<times> string) list \<Rightarrow> technology \<Rightarrow> pyerr + hits" where
  "check_cookies rx cookies t =
     (case tech_cookies t of
        Some cp \<Rightarrow>
          if cookies = [] then Inr no_hits
          else all_hits
                 (map (\<lambda>(cookie_name, cookie_patterns).
                         if dict_get cookies cookie_name [] \<noteq> []
                         then plain_hit rx (''cookies:'' @ cookie_name)
                                (dict_get cookies cookie_name []) cookie_patterns
                         else Inr no_hits) cp)
      | None \<Rightarrow> Inr no_hits)"

definition check_meta ::
  "regex_engine \<Rightarrow> (string \<times> string) list \<Rightarrow> technology \<Rightarrow> pyerr + hits" where
  "check_meta rx meta t =
     (case tech_meta t of
        Some mp \<Rightarrow>
          if meta = [] then Inr no_hits
          else all_hits
                 (map (\<lambda>(meta_name, meta_patterns).
                         if dict_get meta meta_name [] \<noteq> []
                         then versioned_hit rx (''meta:'' @ meta_name)
                                (dict_get meta meta_name []) meta_patterns
                         else Inr no_hits) mp)
      | None \<Rightarrow> Inr no_hits)"

definition check_dns ::
  "regex_engine \<Rightarrow> (string \<times> string list) list \<Rightarrow> technology \<Rightarrow> pyerr + hits" where
  "check_dns rx dns t =
     (case tech_dns t of
        Some dp \<Rightarrow>
          if dns = [] then Inr no_hits
          else all_hits
                 (map (\<lambda>(record_type, record_patterns).
                         all_hits
                           (map (\<lambda>record_value.
                                   plain_hit rx (''dns:'' @ record_type) record_value record_patterns)
                              (dict_get dns (py_upper record_type) []))) dp)
      | None \<Rightarrow> Inr no_hits)"

definition check_certIssuer :: "regex_engine \<Rightarrow> signals \<Rightarrow> technology \<Rightarrow> pyerr + hits" where
  "check_certIssuer rx s t =
     (case tech_certIssuer t of
        Some p \<Rightarrow>
          if sig_certIssuer s \<noteq> [] then plain_hit rx ''certIssuer'' (sig_certIssuer s) p
          else Inr no_hits
      | None \<Rightarrow> Inr no_hits)"

definition opt_or :: "'a list option \<Rightarrow> 'a list" where
  "opt_or x = (case x of None \<Rightarrow> [] | Some v \<Rightarrow> v)"

text \<open>The body of the loop over \<open>self.technologies.items()\<close>, for an entry that is a dict.\<close>

definition tech_hits ::
  "regex_engine \<Rightarrow> soup option \<Rightarrow> signals \<Rightarrow> technology \<Rightarrow> pyerr + hits" where
  "tech_hits rx sp s t =
     all_hits
       [check_url rx s t,
        check_html rx s t,
        check_html_scripts rx sp t,
        check_scripts rx (opt_or (sig_scripts s)) t,
        check_headers rx (opt_or (sig_headers s)) t,
        check_cookies rx (opt_or (sig_cookies s)) t,
        check_meta rx (opt_or (sig_meta s)) t,
        check_dns rx (opt_or (sig_dns s)) t,
        check_certIssuer rx s t]"

text \<open>
  \<^verbatim>\<open>if matches: confidence = min(len(matches) * 10, 100); self.detected[tech_name] =
  {...}\<close>, for the labels and versions \<open>h\<close> that the checks collected.
  \<open>list(versions)\<close> iterates the set of versions.
\<close>

definition entry_data :: "world \<Rightarrow> hits \<Rightarrow> technology \<Rightarrow> det_data" where
  "entry_data W h t =
     \<lparr>det_versions = str_set_order W (snd h),
      det_confidence = min (length (fst h) * 10) 100,
      det_matches = fst h,
      det_categories = opt_or (tech_cats t)\<rparr>"

text \<open>
  One turn of the loop: \<open>self.detected\<close> after it, or the exception that a check let
  through.
\<close>

definition detect_step ::
  "world \<Rightarrow> soup option \<Rightarrow> signals \<Rightarrow> (string \<times> det_data) list \<Rightarrow> string \<times> tech_entry
     \<Rightarrow> pyerr + (string \<times> det_data) list" where
  "detect_step W sp s det entry =
     (case snd entry of
        TechOther \<Rightarrow> Inr det
      | TechDict t \<Rightarrow>
          ebind (tech_hits (re_search W) sp s t)
            (\<lambda>h. Inr (if fst h = [] then det
                       else dict_set det (fst entry) (entry_data W h t))))"

text \<open>
  The loop \<open>for tech_name, tech_data in self.technologies.items()\<close>: an exception ends
  it and leaves \<open>self.detected\<close> as the turns before it made it.
\<close>

fun detect_all ::
  "world \<Rightarrow> soup option \<Rightarrow> signals \<Rightarrow> (string \<times> det_data) list \<Rightarrow> (string \<times> tech_entry) list
     \<Rightarrow> pyerr option \<times> (string \<times> det_data) list" where
  "detect_all W sp s det [] = (None, det)"
| "detect_all W sp s det (entry # rest) =
     (case detect_step W sp s det entry of
        Inl e \<Rightarrow> (Some e, det)
      | Inr det' \<Rightarrow> detect_all W sp s det' rest)"

text \<open>
  The soup of \<open>analyze\<close>: with a non-empty \<open>html\<close>, the first of \<open>lxml\<close> and
  \<open>html.parser\<close> that does not raise; otherwise \<open>None\<close>.
\<close>

definition make_soup :: "world \<Rightarrow> string \<Rightarrow> soup option" where
  "make_soup W html =
     (if html = [] then None
      else case bs4 W Lxml (JStr html) of
             Some doc \<Rightarrow> Some doc
           | None \<Rightarrow> bs4 W HtmlParser (JStr html))"

subsection \<open>\<open>_format_results\<close>\<close>

text \<open>\<open>tech_info.get("cats", [])\<close> for \<open>tech_info = self.technologies.get(tech_name, {})\<close>.\<close>

definition cats_of :: "(string \<times> tech_entry) list \<Rightarrow> string \<Rightarrow> int list" where
  "cats_of techs tech_name =
     (case map_of techs tech_name of
        Some (TechDict t) \<Rightarrow> opt_or (tech_cats t)
      | _ \<Rightarrow> [])"

text \<open>The categories that resolve to a dict, in the order of \<open>cat_ids\<close>.\<close>

definition resolved_cats :: "(string \<times> cat_entry) list \<Rightarrow> int list \<Rightarrow> (int \<times> category) list" where
  "resolved_cats cats cat_ids =
     concat (map (\<lambda>cat_id. case map_of cats (str_int cat_id) of
                              Some (CatDict c) \<Rightarrow> [(cat_id, c)]
                            | _ \<Rightarrow> []) cat_ids)"

definition category_names :: "(string \<times> cat_entry) list \<Rightarrow> int list \<Rightarrow> string list" where
  "category_names cats cat_ids =
     map (\<lambda>(cat_id, c). case cat_name c of Some n \<Rightarrow> n | None \<Rightarrow> ''Category '' @ str_int cat_id)
       (resolved_cats cats cat_ids)"

text \<open>The calls \<open>group_ids.add(grp_id)\<close>, in program order.\<close>

definition group_id_adds :: "(string \<times> cat_entry) list \<Rightarrow> int list \<Rightarrow> int list" where
  "group_id_adds cats cat_ids =
     concat (map (\<lambda>(cat_id, c). opt_or (cat_groups c)) (resolved_cats cats cat_ids))"

text \<open>
  The body of \<open>for grp_id in group_ids\<close>: the name appended for a group id, if
  \<open>self.groups.get(str(grp_id))\<close> is a dict.
\<close>

definition group_display :: "(string \<times> grp_entry) list \<Rightarrow> int \<Rightarrow> string option" where
  "group_display grps grp_id =
     (case map_of grps (str_int grp_id) of
        Some (GrpDict n) \<Rightarrow> Some (case n of Some nm \<Rightarrow> nm | None \<Rightarrow> ''Group '' @ str_int grp_id)
      | _ \<Rightarrow> None)"

definition group_names :: "(string \<times> grp_entry) list \<Rightarrow> int list \<Rightarrow> string list" where
  "group_names grps group_ids =
     concat (map (\<lambda>grp_id. case group_display grps grp_id of Some n \<Rightarrow> [n] | None \<Rightarrow> [])
               group_ids)"

definition format_one :: "world \<Rightarrow> engine \<Rightarrow> string \<times> det_data \<Rightarrow> detection" where
  "format_one W eng item =
     \<lparr>name = fst item,
      confidence = det_confidence (snd item),
      versions = det_versions (snd item),
      categories = category_names (categories_tab eng) (cats_of (technologies eng) (fst item)),
      groups = group_names (groups_tab eng)
                 (int_set_order W
                    (group_id_adds (categories_tab eng) (cats_of (technologies eng) (fst item))))\<rparr>"

text \<open>
  \<^verbatim>\<open>results.sort(key=lambda x: x["confidence"], reverse=True)\<close>. Python's sort is
  stable, and with \<open>reverse=True\<close> it sorts as if the list were reversed, sorted
  stably in ascending order and reversed again, so equal keys keep their order.
\<close>

definition sort_reverse :: "('a \<Rightarrow> nat) \<Rightarrow> 'a list \<Rightarrow> 'a list" where
  "sort_reverse key xs = rev (sort_key key (rev xs))"

definition format_results :: "world \<Rightarrow> engine \<Rightarrow> detection list" where
  "format_results W eng = sort_reverse confidence (map (format_one W eng) (detected eng))"

subsection \<open>\<open>analyze\<close>\<close>

text \<open>
  \<open>analyze\<close> assigns \<open>self.detected = {}\<close>, fills it in the loop and returns
  \<open>self._format_results()\<close>, unless a check raised. Either way the detector is
  returned with the attribute as the call leaves it.
\<close>

definition run_detection ::
  "world \<Rightarrow> engine \<Rightarrow> signals \<Rightarrow> pyerr option \<times> (string \<times> det_data) list" where
  "run_detection W eng s =
     detect_all W (make_soup W (sig_html s)) s [] (technologies eng)"

definition analyze :: "world \<Rightarrow> engine \<Rightarrow> signals \<Rightarrow> (pyerr + detection list) \<times> engine" where
  "analyze W eng s =
     (case run_detection W eng s of
        (Some e, det) \<Rightarrow> (Inl e, eng\<lparr>detected := det\<rparr>)
      | (None, det) \<Rightarrow>
          (Inr (format_results W (eng\<lparr>detected := det\<rparr>)), eng\<lparr>detected := det\<rparr>))"

section \<open>Python operations on JSON values\<close>

text \<open>The truth value of a JSON value, and \<open>a or b\<close>.\<close>

fun truthy :: "jval \<Rightarrow> bool" where
  "truthy JNull = False"
| "truthy (JBool b) = b"
| "truthy (JNum n) = (n \<noteq> 0)"
| "truthy (JStr s) = (s \<noteq> [])"
| "truthy (JArr xs) = (xs \<noteq> [])"
| "truthy (JObj kv) = (kv \<noteq> [])"

definition py_or :: "jval \<Rightarrow> jval \<Rightarrow> jval" where
  "py_or a b = (if truthy a then a else b)"

text \<open>\<open>x.get(k, dflt)\<close>: only a \<open>dict\<close> has the method.\<close>

fun py_get :: "jval \<Rightarrow> string \<Rightarrow> jval \<Rightarrow> pyerr + jval" where
  "py_get (JObj kv) k dflt = Inr (case map_of kv k of Some v \<Rightarrow> v | None \<Rightarrow> dflt)"
| "py_get JNull k dflt = Inl AttributeError"
| "py_get (JBool b) k dflt = Inl AttributeError"
| "py_get (JNum n) k dflt = Inl AttributeError"
| "py_get (JStr s) k dflt = Inl AttributeError"
| "py_get (JArr xs) k dflt = Inl AttributeError"

text \<open>\<open>x.lower()\<close>: only a \<open>str\<close> has the method.\<close>

fun lower_of :: "jval \<Rightarrow> pyerr + string" where
  "lower_of (JStr s) = Inr (py_lower s)"
| "lower_of JNull = Inl AttributeError"
| "lower_of (JBool b) = Inl AttributeError"
| "lower_of (JNum n) = Inl AttributeError"
| "lower_of (JArr xs) = Inl AttributeError"
| "lower_of (JObj kv) = Inl AttributeError"

text \<open>\<open>sub in s\<close> and \<open>s.endswith(suf)\<close> on strings.\<close>

fun contains :: "string \<Rightarrow> string \<Rightarrow> bool" where
  "contains sub [] = (sub = [])"
| "contains sub (c # cs) = (prefix sub (c # cs) \<or> contains sub cs)"

definition py_endswith :: "string \<Rightarrow> string \<Rightarrow> bool" where
  "py_endswith s suf = prefix (rev suf) (rev s)"

text \<open>
  The characters of a string: a lead byte with the continuation bytes (\<open>0x80\<close> to
  \<open>0xBF\<close>) that follow it.
\<close>

definition is_cont :: "char \<Rightarrow> bool" where
  "is_cont c \<longleftrightarrow> 128 \<le> (of_char c :: nat) \<and> (of_char c :: nat) \<le> 191"

function py_chars :: "string \<Rightarrow> string list" where
  "py_chars [] = []"
| "py_chars (c # cs) = (c # takeWhile is_cont cs) # py_chars (dropWhile is_cont cs)"
  by pat_completeness auto
termination
  by (relation "measure length") (auto simp: length_dropWhile_le le_imp_less_Suc)

text \<open>\<open>s[:n]\<close> on a string.\<close>

definition py_prefix :: "nat \<Rightarrow> string \<Rightarrow> string" where
  "py_prefix n s = concat (take n (py_chars s))"

text \<open>
  \<open>for x in v\<close>: a list gives its elements, a dict its keys, a string its characters;
  \<open>None\<close>, a bool and a number are not iterable.
\<close>

fun py_iter :: "jval \<Rightarrow> pyerr + jval list" where
  "py_iter (JArr xs) = Inr xs"
| "py_iter (JObj kv) = Inr (map (\<lambda>item. JStr (fst item)) kv)"
| "py_iter (JStr s) = Inr (map JStr (py_chars s))"
| "py_iter JNull = Inl TypeError"
| "py_iter (JBool b) = Inl TypeError"
| "py_iter (JNum n) = Inl TypeError"

text \<open>
  \<open>v[0]\<close>: the first element of a list or string; on a dict the key \<open>0\<close>, which a
  JSON object never has.
\<close>

fun py_first :: "jval \<Rightarrow> pyerr + jval" where
  "py_first (JArr xs) = (case xs of [] \<Rightarrow> Inl IndexError | x # rest \<Rightarrow> Inr x)"
| "py_first (JStr s) = (case py_chars s of [] \<Rightarrow> Inl IndexError | c # rest \<Rightarrow> Inr (JStr c))"
| "py_first (JObj kv) = Inl KeyError"
| "py_first JNull = Inl TypeError"
| "py_first (JBool b) = Inl TypeError"
| "py_first (JNum n) = Inl TypeError"

text \<open>
  Keys of a \<open>dict\<close> and members of a \<open>set\<close>: lists and dicts are unhashable, and
  \<open>True\<close> and \<open>False\<close> are equal to \<open>1\<close> and \<open>0\<close>.
\<close>

fun hashable :: "jval \<Rightarrow> bool" where
  "hashable (JArr xs) = False"
| "hashable (JObj kv) = False"
| "hashable JNull = True"
| "hashable (JBool b) = True"
| "hashable (JNum n) = True"
| "hashable (JStr s) = True"

fun py_eq :: "jval \<Rightarrow> jval \<Rightarrow> bool" where
  "py_eq (JBool a) (JNum n) = (n = (if a then 1 else 0))"
| "py_eq (JNum n) (JBool a) = (n = (if a then 1 else 0))"
| "py_eq a b = (a = b)"

fun pydict_set :: "(jval \<times> jval) list \<Rightarrow> jval \<Rightarrow> jval \<Rightarrow> (jval \<times> jval) list" where
  "pydict_set [] k v = [(k, v)]"
| "pydict_set ((k', v') # rest) k v =
     (if py_eq k' k then (k', v) # rest else (k', v') # pydict_set rest k v)"

section \<open>\<open>base64.b64decode\<close> and \<open>bytes.decode\<close>\<close>

text \<open>
  Bytes are \<^typ>\<open>char\<close>s. \<open>base64.b64decode(s)\<close> with its default arguments, on a
  \<open>str\<close>: the string must be ASCII; characters outside the alphabet are discarded;
  decoding stops at the padding that completes a group of four; data that ends inside a
  group raises.
\<close>

definition b64_value :: "char \<Rightarrow> nat option" where
  "b64_value c =
     (if 65 \<le> (of_char c :: nat) \<and> (of_char c :: nat) \<le> 90 then Some ((of_char c :: nat) - 65)
      else if 97 \<le> (of_char c :: nat) \<and> (of_char c :: nat) \<le> 122 then Some ((of_char c :: nat) - 71)
      else if 48 \<le> (of_char c :: nat) \<and> (of_char c :: nat) \<le> 57 then Some ((of_char c :: nat) + 4)
      else if c = CHR ''+'' then Some 62
      else if c = CHR ''/'' then Some 63
      else None)"

text \<open>
  The decoding loop, with the position in the group of four, the bits left over from
  the previous character and the count of padding characters seen in a row.
\<close>

fun a2b_base64 :: "nat \<Rightarrow> nat \<Rightarrow> nat \<Rightarrow> string \<Rightarrow> string option" where
  "a2b_base64 quad_pos leftchar pads [] = (if quad_pos = 0 then Some [] else None)"
| "a2b_base64 quad_pos leftchar pads (c # cs) =
     (if c = CHR ''='' then
        (if 2 \<le> quad_pos \<and> 4 \<le> quad_pos + (pads + 1) then Some []
         else a2b_base64 quad_pos leftchar (if 2 \<le> quad_pos then pads + 1 else pads) cs)
      else
        (case b64_value c of
           None \<Rightarrow> a2b_base64 quad_pos leftchar pads cs
         | Some v \<Rightarrow>
             if quad_pos = 0 then a2b_base64 1 v 0 cs
             else if quad_pos = 1 then
               map_option (Cons (char_of (leftchar * 4 + v div 16))) (a2b_base64 2 (v mod 16) 0 cs)
             else if quad_pos = 2 then
               map_option (Cons (char_of (leftchar * 16 + v div 4))) (a2b_base64 3 (v mod 4) 0 cs)
             else
               map_option (Cons (char_of (leftchar * 64 + v))) (a2b_base64 0 0 0 cs)))"

definition b64decode :: "string \<Rightarrow> string option" where
  "b64decode s = (if list_all (\<lambda>c. (of_char c :: nat) < 128) s then a2b_base64 0 0 0 s else None)"

text \<open>
  UTF-8: the length of the sequence a lead byte announces (0 for a byte that cannot
  start one), and the bytes allowed in second place.
\<close>

definition seq_len :: "char \<Rightarrow> nat" where
  "seq_len b =
     (if (of_char b :: nat) < 128 then 1
      else if 194 \<le> (of_char b :: nat) \<and> (of_char b :: nat) \<le> 223 then 2
      else if 224 \<le> (of_char b :: nat) \<and> (of_char b :: nat) \<le> 239 then 3
      else if 240 \<le> (of_char b :: nat) \<and> (of_char b :: nat) \<le> 244 then 4
      else 0)"

definition second_ok :: "char \<Rightarrow> char \<Rightarrow> bool" where
  "second_ok lead b =
     (if (of_char lead :: nat) = 224 then 160 \<le> (of_char b :: nat) \<and> (of_char b :: nat) \<le> 191
      else if (of_char lead :: nat) = 237 then 128 \<le> (of_char b :: nat) \<and> (of_char b :: nat) \<le> 159
      else if (of_char lead :: nat) = 240 then 144 \<le> (of_char b :: nat) \<and> (of_char b :: nat) \<le> 191
      else if (of_char lead :: nat) = 244 then 128 \<le> (of_char b :: nat) \<and> (of_char b :: nat) \<le> 143
      else is_cont b)"

text \<open>How many of the bytes after a lead byte continue its sequence, at most \<open>need\<close>.\<close>

definition valid_tail :: "char \<Rightarrow> nat \<Rightarrow> string \<Rightarrow> nat" where
  "valid_tail lead need bs =
     (case bs of
        [] \<Rightarrow> 0
      | b # rest \<Rightarrow>
          if need = 0 then 0
          else if second_ok lead b then 1 + length (takeWhile is_cont (take (need - 1) rest))
          else 0)"

text \<open>
  The decoder cuts the bytes into pieces: a complete sequence (marked \<open>True\<close>), or the
  bytes of one decoding error (marked \<open>False\<close>): a byte that cannot start a sequence,
  or the valid beginning of a sequence that is not completed.
\<close>

function utf8_pieces :: "string \<Rightarrow> (bool \<times> string) list" where
  "utf8_pieces [] = []"
| "utf8_pieces (b # bs) =
     (if seq_len b = 0 then (False, [b]) # utf8_pieces bs
      else (valid_tail b (seq_len b - 1) bs = seq_len b - 1,
            b # take (valid_tail b (seq_len b - 1) bs) bs)
           # utf8_pieces (drop (valid_tail b (seq_len b - 1) bs) bs))"
  by pat_completeness auto
termination
  by (relation "measure length") auto

text \<open>
  \<open>data.decode("utf-8", errors=...)\<close>: \<open>strict\<close> raises on an error, \<open>ignore\<close> drops
  its bytes, \<open>replace\<close> puts U+FFFD (the bytes \<open>EF BF BD\<close>) in their place.
\<close>

datatype decode_errors = Strict | Ignore | Replace

datatype decode_failure = UnicodeDecodeError

definition replacement_character :: string where
  "replacement_character = [CHR 0xEF, CHR 0xBF, CHR 0xBD]"

definition bytes_decode :: "decode_errors \<Rightarrow> string \<Rightarrow> decode_failure + string" where
  "bytes_decode mode bs =
     (case mode of
        Strict \<Rightarrow>
          if list_all fst (utf8_pieces bs) then Inr (concat (map snd (utf8_pieces bs)))
          else Inl UnicodeDecodeError
      | Ignore \<Rightarrow> Inr (concat (map snd (filter fst (utf8_pieces bs))))
      | Replace \<Rightarrow>
          Inr (concat (map (\<lambda>piece. if fst piece then snd piece else replacement_character)
                         (utf8_pieces bs))))"

section \<open>\<open>parse_har_file\<close> (har.py)\<close>

text \<open>
  The dictionary \<open>parse_har_file\<close> returns. The values come from the capture, so a
  field holds whatever JSON value the capture has there.
\<close>

record har_result =
  har_url :: jval
  har_html :: jval
  har_headers :: "(string \<times> jval) list"
  har_cookies :: "(jval \<times> jval) list"
  har_scripts :: "jval list"
  har_meta :: "(string \<times> string) list"

definition EMPTY_HAR_RESULT :: har_result where
  "EMPTY_HAR_RESULT =
     \<lparr>har_url = JStr [], har_html = JStr [], har_headers = [], har_cookies = [],
      har_scripts = [], har_meta = []\<rparr>"

text \<open>
  \<^verbatim>\<open>"html" in e.get("response", {}).get("content", {}).get("mimeType", "").lower()\<close>
\<close>

definition html_entry :: "jval \<Rightarrow> pyerr + bool" where
  "html_entry e =
     ebind (py_get e ''response'' (JObj [])) (\<lambda>response.
     ebind (py_get response ''content'' (JObj [])) (\<lambda>content.
     ebind (py_get content ''mimeType'' (JStr [])) (\<lambda>mime.
     ebind (lower_of mime) (\<lambda>m. Inr (contains ''html'' m)))))"

text \<open>The generator consumed by \<open>next\<close>: the first entry for which the test holds.\<close>

fun first_html_entry :: "jval list \<Rightarrow> pyerr + jval option" where
  "first_html_entry [] = Inr None"
| "first_html_entry (e # es) =
     ebind (html_entry e) (\<lambda>is_html. if is_html then Inr (Some e) else first_html_entry es)"

text \<open>
  \<^verbatim>\<open>next((e for e in entries if ...), entries[0])\<close>: the generator is created (which
  takes \<open>iter(entries)\<close>), then \<open>entries[0]\<close> is evaluated, then the generator runs.
\<close>

definition main_entry :: "jval \<Rightarrow> pyerr + jval" where
  "main_entry entries =
     ebind (py_iter entries) (\<lambda>es.
     ebind (py_first entries) (\<lambda>first.
     ebind (first_html_entry es) (\<lambda>found.
     Inr (case found of Some e \<Rightarrow> e | None \<Rightarrow> first))))"

text \<open>The loop over \<open>response_obj.get("headers", [])\<close>.\<close>

fun collect_headers :: "(string \<times> jval) list \<Rightarrow> jval list \<Rightarrow> pyerr + (string \<times> jval) list" where
  "collect_headers headers [] = Inr headers"
| "collect_headers headers (h # hs) =
     ebind (py_get h ''name'' JNull) (\<lambda>n.
     ebind (lower_of (py_or n (JStr []))) (\<lambda>name.
     ebind (py_get h ''value'' JNull) (\<lambda>v.
     collect_headers
       (if name \<noteq> [] then dict_set headers name (py_or v (JStr [])) else headers) hs)))"

text \<open>The loop over \<open>response_obj.get("cookies", [])\<close>; a name that is a list or a dict cannot be a key.\<close>

fun collect_cookies :: "(jval \<times> jval) list \<Rightarrow> jval list \<Rightarrow> pyerr + (jval \<times> jval) list" where
  "collect_cookies cookies [] = Inr cookies"
| "collect_cookies cookies (c # cs) =
     ebind (py_get c ''name'' JNull) (\<lambda>name.
     ebind (py_get c ''value'' JNull) (\<lambda>v.
     if truthy name
     then (if hashable name
           then collect_cookies (pydict_set cookies name (py_or v (JStr []))) cs
           else Inl TypeError)
     else collect_cookies cookies cs))"

text \<open>
  \<^verbatim>\<open>text = base64.b64decode(text).decode("utf-8", errors="ignore")\<close> inside
  \<^verbatim>\<open>try ... except Exception: pass\<close>: \<open>b64decode\<close> raises on a value that is not a
  string and on a string it cannot decode, and then \<open>text\<close> stays as it is.
\<close>

definition decode_mode :: decode_errors where
  "decode_mode = Ignore"

definition decode_base64_text :: "jval \<Rightarrow> jval" where
  "decode_base64_text text =
     (case text of
        JStr s \<Rightarrow>
          (case b64decode s of
             None \<Rightarrow> text
           | Some bs \<Rightarrow> (case bytes_decode decode_mode bs of Inl e \<Rightarrow> text | Inr t \<Rightarrow> JStr t))
      | _ \<Rightarrow> text)"

text \<open>
  The value left in \<open>result["html"]\<close> for the content object of the main entry (the
  empty string of \<open>EMPTY_HAR_RESULT\<close> when \<open>text\<close> is false).
\<close>

definition body_text :: "jval \<Rightarrow> pyerr + jval" where
  "body_text content =
     ebind (py_get content ''text'' (JStr [])) (\<lambda>t.
     if truthy (py_or t (JStr []))
     then ebind (py_get content ''encoding'' JNull) (\<lambda>encoding.
            Inr (if encoding = JStr ''base64'' then decode_base64_text (py_or t (JStr []))
                 else py_or t (JStr [])))
     else Inr (JStr []))"

text \<open>The loop \<open>for entry in entries\<close> that collects script URLs.\<close>

fun entry_scripts :: "jval list \<Rightarrow> pyerr + jval list" where
  "entry_scripts [] = Inr []"
| "entry_scripts (entry # rest) =
     ebind (py_get entry ''request'' (JObj [])) (\<lambda>req.
     ebind (py_get req ''url'' (JStr [])) (\<lambda>u.
     ebind (py_get entry ''response'' (JObj [])) (\<lambda>response.
     ebind (py_get response ''content'' (JObj [])) (\<lambda>content.
     ebind (py_get content ''mimeType'' (JStr [])) (\<lambda>mt.
     ebind (lower_of (py_or mt (JStr []))) (\<lambda>mime.
     ebind (if contains ''javascript'' mime then Inr True
            else (case py_or u (JStr []) of
                    JStr s \<Rightarrow> Inr (py_endswith s ''.js'')
                  | _ \<Rightarrow> Inl AttributeError)) (\<lambda>is_script.
     ebind (entry_scripts rest) (\<lambda>more.
     Inr (if is_script then py_or u (JStr []) # more else more)))))))))"

text \<open>
  \<^verbatim>\<open>try: soup = BeautifulSoup(html, "lxml") except Exception: soup =
  BeautifulSoup(html, "html.parser")\<close>: the second call is not guarded.
\<close>

definition har_soup :: "world \<Rightarrow> jval \<Rightarrow> pyerr + soup" where
  "har_soup W html =
     (case bs4 W Lxml html of
        Some doc \<Rightarrow> Inr doc
      | None \<Rightarrow> (case bs4 W HtmlParser html of Some doc \<Rightarrow> Inr doc | None \<Rightarrow> Inl ParserError))"

text \<open>\<open>tag.get(k)\<close> is \<open>None\<close> or a string; \<open>a or b\<close> on such values.\<close>

definition attr :: "tag \<Rightarrow> string \<Rightarrow> string option" where
  "attr tg k = map_of (tag_attrs tg) k"

definition opt_truthy :: "string option \<Rightarrow> bool" where
  "opt_truthy x = (case x of None \<Rightarrow> False | Some s \<Rightarrow> s \<noteq> [])"

definition opt_or_else :: "string option \<Rightarrow> string option \<Rightarrow> string option" where
  "opt_or_else a b = (if opt_truthy a then a else b)"

text \<open>The loop over \<open>soup.find_all("meta")\<close>.\<close>

fun collect_meta :: "(string \<times> string) list \<Rightarrow> tag list \<Rightarrow> (string \<times> string) list" where
  "collect_meta meta [] = meta"
| "collect_meta meta (tg # tags) =
     collect_meta
       (case (opt_or_else (attr tg ''name'') (opt_or_else (attr tg ''property'') (attr tg ''http-equiv'')),
              attr tg ''content'') of
          (Some n, Some content_val) \<Rightarrow>
            if n \<noteq> [] \<and> content_val \<noteq> [] then dict_set meta n content_val else meta
        | _ \<Rightarrow> meta)
       tags"

text \<open>The loop over \<open>soup.find_all("script")\<close>: inline scripts, cut to 500 characters.\<close>

definition inline_scripts :: "soup \<Rightarrow> jval list" where
  "inline_scripts doc =
     concat (map (\<lambda>s. if \<not> opt_truthy (attr s ''src'') \<and> opt_truthy (tag_string s)
                       then [JStr (py_prefix 500 (case tag_string s of Some b \<Rightarrow> b | None \<Rightarrow> []))]
                       else [])
               (filter (\<lambda>tg. tag_name tg = ''script'') doc))"

text \<open>The loop that removes repeated scripts; \<open>s not in seen\<close> hashes \<open>s\<close>.\<close>

fun dedupe_scripts :: "jval list \<Rightarrow> jval list \<Rightarrow> pyerr + jval list" where
  "dedupe_scripts seen [] = Inr []"
| "dedupe_scripts seen (s # rest) =
     (if \<not> hashable s then Inl TypeError
      else if list_ex (py_eq s) seen then dedupe_scripts seen rest
      else ebind (dedupe_scripts (s # seen) rest) (\<lambda>more. Inr (s # more)))"

text \<open>What \<open>parse_har_file\<close> does once \<open>entries\<close> is known to be true.\<close>

definition parse_entries :: "world \<Rightarrow> jval \<Rightarrow> pyerr + har_result" where
  "parse_entries W entries =
     ebind (main_entry entries) (\<lambda>main.
     ebind (py_get main ''request'' (JObj [])) (\<lambda>request_obj.
     ebind (py_get main ''response'' (JObj [])) (\<lambda>response_obj.
     ebind (py_get request_obj ''url'' (JStr [])) (\<lambda>u.
     ebind (py_get response_obj ''headers'' (JArr [])) (\<lambda>hs.
     ebind (py_iter hs) (\<lambda>header_list.
     ebind (collect_headers [] header_list) (\<lambda>headers.
     ebind (py_get response_obj ''cookies'' (JArr [])) (\<lambda>cs.
     ebind (py_iter cs) (\<lambda>cookie_list.
     ebind (collect_cookies [] cookie_list) (\<lambda>cookies.
     ebind (py_get response_obj ''content'' (JObj [])) (\<lambda>content.
     ebind (body_text content) (\<lambda>html.
     ebind (py_iter entries) (\<lambda>es.
     ebind (entry_scripts es) (\<lambda>script_candidates.
     ebind (if truthy html then ebind (har_soup W html) (\<lambda>doc. Inr (Some doc)) else Inr None) (\<lambda>sp.
     ebind (dedupe_scripts []
              (script_candidates @ (case sp of None \<Rightarrow> [] | Some doc \<Rightarrow> inline_scripts doc))) (\<lambda>scripts.
     Inr \<lparr>har_url = py_or u (JStr []),
          har_html = html,
          har_headers = headers,
          har_cookies = cookies,
          har_scripts = scripts,
          har_meta = (case sp of
                        None \<Rightarrow> []
                      | Some doc \<Rightarrow> collect_meta [] (filter (\<lambda>tg. tag_name tg = ''meta'') doc))\<rparr>
     ))))))))))))))))"

text \<open>
  \<open>parse_har_file\<close>: the \<open>try\<close> covers opening the file and \<open>json.load\<close> only.
\<close>

definition har_entries :: "jval \<Rightarrow> pyerr + jval" where
  "har_entries har_data =
     ebind (py_get har_data ''log'' (JObj [])) (\<lambda>log. py_get log ''entries'' (JArr []))"

definition parse_har_file :: "world \<Rightarrow> string \<Rightarrow> pyerr + har_result" where
  "parse_har_file W har_path =
     (case read_json W har_path of
        None \<Rightarrow> Inr EMPTY_HAR_RESULT
      | Some har_data \<Rightarrow>
          ebind (har_entries har_data) (\<lambda>entries.
          if \<not> truthy entries then Inr EMPTY_HAR_RESULT else parse_entries W entries))"

section \<open>The entry points (analyzer.py)\<close>

text \<open>
  \<open>analyze\<close> is annotated to take strings and dictionaries of strings, and the values of
  a parsed capture or of \<open>json_data\<close> are \<open>Any\<close>. The model makes the cast at the call
  explicit: values of the annotated types are passed on, and for other values, which
  are outside the domain of \<open>analyze\<close>, the call is a \<open>TypeError\<close>.
\<close>

definition as_str :: "jval \<Rightarrow> string option" where
  "as_str v = (case v of JStr s \<Rightarrow> Some s | _ \<Rightarrow> None)"

definition as_str_list :: "jval list \<Rightarrow> string list option" where
  "as_str_list vs = those (map as_str vs)"

definition as_str_dict :: "(string \<times> jval) list \<Rightarrow> (string \<times> string) list option" where
  "as_str_dict kv = those (map (\<lambda>item. map_option (Pair (fst item)) (as_str (snd item))) kv)"

definition as_str_items :: "(jval \<times> jval) list \<Rightarrow> (string \<times> string) list option" where
  "as_str_items kv =
     those (map (\<lambda>item. case (as_str (fst item), as_str (snd item)) of
                           (Some k, Some v) \<Rightarrow> Some (k, v)
                         | _ \<Rightarrow> None) kv)"

definition signals_of :: "har_result \<Rightarrow> signals option" where
  "signals_of data =
     (case (as_str (har_url data), as_str (har_html data), as_str_dict (har_headers data),
            as_str_items (har_cookies data), as_str_list (har_scripts data)) of
        (Some u, Some h, Some hdrs, Some cks, Some scs) \<Rightarrow>
          Some \<lparr>sig_url = u, sig_html = h, sig_headers = Some hdrs, sig_cookies = Some cks,
                sig_scripts = Some scs, sig_meta = Some (har_meta data), sig_dns = None,
                sig_certIssuer = []\<rparr>
      | _ \<Rightarrow> None)"

text \<open>
  A call returns its result or raises, and leaves the detector in some state. An
  exception of \<open>parse_har_file\<close> leaves the detector as it was.
\<close>

type_synonym outcome = "(pyerr + detection list) \<times> engine"

definition run_analyze :: "world \<Rightarrow> engine \<Rightarrow> signals option \<Rightarrow> outcome" where
  "run_analyze W eng s =
     (case s of
        None \<Rightarrow> (Inl TypeError, eng)
      | Some sg \<Rightarrow> analyze W eng sg)"

definition analyze_har :: "world \<Rightarrow> engine \<Rightarrow> string \<Rightarrow> outcome" where
  "analyze_har W eng har_path =
     (case parse_har_file W har_path of
        Inl e \<Rightarrow> (Inl e, eng)
      | Inr data \<Rightarrow> run_analyze W eng (signals_of data))"

text \<open>
  \<open>str(v)\<close>: a string is itself; the text of a list or a dict is left to the world.
\<close>

definition to_str :: "world \<Rightarrow> jval \<Rightarrow> string" where
  "to_str W v =
     (case v of
        JStr s \<Rightarrow> s
      | JNum n \<Rightarrow> str_int n
      | JNull \<Rightarrow> ''None''
      | JBool b \<Rightarrow> if b then ''True'' else ''False''
      | JArr xs \<Rightarrow> py_repr W v
      | JObj kv \<Rightarrow> py_repr W v)"

text \<open>\<open>dict(x or {})\<close> and \<open>list(x or [])\<close>, cast to the annotated types.\<close>

definition json_dict :: "jval \<Rightarrow> (string \<times> string) list option" where
  "json_dict x =
     (case py_or x (JObj []) of
        JObj kv \<Rightarrow> as_str_dict kv
      | _ \<Rightarrow> None)"

definition json_list :: "jval \<Rightarrow> string list option" where
  "json_list x =
     (case py_or x (JArr []) of
        JArr xs \<Rightarrow> as_str_list xs
      | _ \<Rightarrow> None)"

definition json_dns :: "jval \<Rightarrow> (string \<times> string list) list option" where
  "json_dns x =
     (case py_or x (JObj []) of
        JObj kv \<Rightarrow>
          those (map (\<lambda>item. case snd item of
                                JArr xs \<Rightarrow> map_option (Pair (fst item)) (as_str_list xs)
                              | _ \<Rightarrow> None) kv)
      | _ \<Rightarrow> None)"

definition json_signals :: "world \<Rightarrow> (string \<times> jval) list \<Rightarrow> signals option" where
  "json_signals W json_data =
     (case (json_dict (dict_get json_data ''headers'' (JObj [])),
            json_dict (dict_get json_data ''cookies'' (JObj [])),
            json_list (dict_get json_data ''scripts'' (JArr [])),
            json_dict (dict_get json_data ''meta'' (JObj [])),
            json_dns (dict_get json_data ''dns'' (JObj []))) of
        (Some hdrs, Some cks, Some scs, Some mts, Some dn) \<Rightarrow>
          Some \<lparr>sig_url = to_str W (dict_get json_data ''url'' (JStr [])),
                sig_html = to_str W (dict_get json_data ''html'' (JStr [])),
                sig_headers = Some hdrs, sig_cookies = Some cks, sig_scripts = Some scs,
                sig_meta = Some mts, sig_dns = Some dn,
                sig_certIssuer = to_str W (py_or (dict_get json_data ''certIssuer'' (JStr [])) (JStr []))\<rparr>
      | _ \<Rightarrow> None)"

definition analyze_json :: "world \<Rightarrow> engine \<Rightarrow> (string \<times> jval) list \<Rightarrow> outcome" where
  "analyze_json W eng json_data =
     (case map_of json_data ''har_path'' of
        Some v \<Rightarrow> analyze_har W eng (to_str W v)
      | None \<Rightarrow> run_analyze W eng (json_signals W json_data))"

text \<open>
  \<open>TechDetector()\<close> reads the three tables; \<open>detect_technologies\<close> creates the global
  detector on first use. Its keyword arguments are the signals of \<open>analyze\<close>,
  \<open>har_path\<close> and \<open>json_data\<close>; the result comes with the global detector after the call.
\<close>

definition new_detector :: "world \<Rightarrow> engine" where
  "new_detector W =
     \<lparr>technologies = load_technologies W, categories_tab = load_categories W,
      groups_tab = load_groups W, detected = []\<rparr>"

definition global_detector :: "world \<Rightarrow> engine option \<Rightarrow> engine" where
  "global_detector W g = (case g of None \<Rightarrow> new_detector W | Some detector \<Rightarrow> detector)"

definition detect_technologies ::
  "world \<Rightarrow> engine option \<Rightarrow> signals \<Rightarrow> string option \<Rightarrow> (string \<times> jval) list option \<Rightarrow> outcome" where
  "detect_technologies W g s har_path json_data =
     (case har_path of
        Some p \<Rightarrow>
          if p \<noteq> [] then analyze_har W (global_detector W g) p
          else (case json_data of
                  Some j \<Rightarrow> analyze_json W (global_detector W g) j
                | None \<Rightarrow> run_analyze W (global_detector W g) (Some s))
      | None \<Rightarrow>
          (case json_data of
             Some j \<Rightarrow> analyze_json W (global_detector W g) j
           | None \<Rightarrow> run_analyze W (global_detector W g) (Some s)))"

section \<open>Notions used to state the properties\<close>

text \<open>
  The labels \<open>analyze\<close> collects for one technology of the table, or the exception that
  its checks let through.
\<close>

definition analyze_matches :: "world \<Rightarrow> signals \<Rightarrow> technology \<Rightarrow> pyerr + string list" where
  "analyze_matches W s t =
     ebind (tech_hits (re_search W) (make_soup W (sig_html s)) s t) (\<lambda>h. Inr (fst h))"

text \<open>A pattern on which \<open>re.search\<close> raises \<open>re.error\<close>.\<close>

definition re_error_on :: "regex_engine \<Rightarrow> string \<Rightarrow> string \<Rightarrow> bool" where
  "re_error_on rx text pattern \<longleftrightarrow> rx (strip_wappalyzer_pattern pattern) text = ReError"

text \<open>A fingerprint value without the patterns on which \<open>re.search\<close> raises \<open>re.error\<close>.\<close>

fun without_re_errors :: "regex_engine \<Rightarrow> string \<Rightarrow> pattern_spec \<Rightarrow> pattern_spec" where
  "without_re_errors rx text (PStr s) = (if re_error_on rx text s then PList [] else PStr s)"
| "without_re_errors rx text (PList ps) = PList (filter (\<lambda>p. \<not> re_error_on rx text p) ps)"
| "without_re_errors rx text (PDict es) =
     PDict (filter (\<lambda>e. \<not> re_error_on rx text (fst e)) es)"

text \<open>
  The reading of the specification of the metadata suffix: the pattern up to its first
  backslash-semicolon.
\<close>

fun before_marker :: "string \<Rightarrow> string" where
  "before_marker [] = []"
| "before_marker (c # cs) =
     (case cs of
        [] \<Rightarrow> [c]
      | d # t \<Rightarrow> if c = backslash \<and> d = CHR '';'' then [] else c # before_marker cs)"

text \<open>
  The reading of the specification of the version template: the tokens are a backslash
  followed by one of the digits 1 to 9, and every token whose group took part in the
  match with a non-empty text is replaced by that text, all tokens at once.
\<close>

definition digit_value :: "char \<Rightarrow> nat option" where
  "digit_value d =
     (if d = CHR ''1'' then Some 1 else if d = CHR ''2'' then Some 2
      else if d = CHR ''3'' then Some 3 else if d = CHR ''4'' then Some 4
      else if d = CHR ''5'' then Some 5 else if d = CHR ''6'' then Some 6
      else if d = CHR ''7'' then Some 7 else if d = CHR ''8'' then Some 8
      else if d = CHR ''9'' then Some 9 else None)"

definition token_group :: "string option list \<Rightarrow> char \<Rightarrow> string option" where
  "token_group gs d =
     (case digit_value d of
        None \<Rightarrow> None
      | Some j \<Rightarrow>
          if j \<le> length gs
          then (case gs ! (j - 1) of None \<Rightarrow> None | Some g \<Rightarrow> if g = [] then None else Some g)
          else None)"

fun substitute_tokens :: "string option list \<Rightarrow> string \<Rightarrow> string" where
  "substitute_tokens gs [] = []"
| "substitute_tokens gs [c] = [c]"
| "substitute_tokens gs (c # d # cs) =
     (if c = backslash
      then (case token_group gs d of
              Some g \<Rightarrow> g @ substitute_tokens gs cs
            | None \<Rightarrow> c # substitute_tokens gs (d # cs))
      else c # substitute_tokens gs (d # cs))"

text \<open>A template in which no backslash is followed by another backslash.\<close>

fun no_double_backslash :: "string \<Rightarrow> bool" where
  "no_double_backslash [] = True"
| "no_double_backslash [c] = True"
| "no_double_backslash (c # d # cs) =
     (\<not> (c = backslash \<and> d = backslash) \<and> no_double_backslash (d # cs))"

text \<open>The group ids that \<open>_format_results\<close> adds to \<open>group_ids\<close> for a technology.\<close>

definition referenced_group_ids :: "engine \<Rightarrow> string \<Rightarrow> int list" where
  "referenced_group_ids eng tech_name =
     group_id_adds (categories_tab eng) (cats_of (technologies eng) tech_name)"

section \<open>Example data\<close>

text \<open>
  Concrete tables and signals on which the model is run. The regular-expression engine
  and the HTML parser are given by finite tables: each entry is the outcome of
  \<open>re.search\<close> (with \<open>re.IGNORECASE\<close>) for that pattern and text, and any
  other pair is a non-match; each markup is listed with the tags the parser finds in it.
  A set of small integers is iterated in ascending order, as CPython iterates the group
  ids of the examples.
\<close>

definition rx_table :: "((string \<times> string) \<times> re_result) list \<Rightarrow> regex_engine" where
  "rx_table tab pat text = (case map_of tab (pat, text) of Some r \<Rightarrow> r | None \<Rightarrow> NoMatch)"

definition soup_table :: "(jval \<times> soup) list \<Rightarrow> parser \<Rightarrow> jval \<Rightarrow> soup option" where
  "soup_table tab p markup = map_of tab markup"

definition no_fingerprint :: technology where
  "no_fingerprint =
     \<lparr>tech_url = None, tech_html = None, tech_scripts = None, tech_headers = None,
      tech_cookies = None, tech_meta = None, tech_dns = None, tech_certIssuer = None,
      tech_cats = None\<rparr>"

definition example_cms :: technology where
  "example_cms = no_fingerprint
     \<lparr>tech_html := Some (PDict [(''ExampleCMS ([0-9.]+)'', [backslash, CHR ''1''])]),
      tech_cats := Some [1]\<rparr>"

definition nginx_tech :: technology where
  "nginx_tech = no_fingerprint
     \<lparr>tech_headers := Some [(''Server'', PStr ''nginx/([0-9.]+)'')],
      tech_cats := Some [2]\<rparr>"

text \<open>A fingerprint on whose first pattern \<open>re.search\<close> raises \<open>re.error\<close>.\<close>

definition broken_tech :: technology where
  "broken_tech = no_fingerprint
     \<lparr>tech_url := Some (PList [''('', ''example'']),
      tech_cats := Some [1, 2, 7]\<rparr>"

text \<open>
  A fingerprint whose first pattern has a repetition count beyond the maximum of the
  library: \<open>re.search\<close> raises \<open>OverflowError\<close> on it.
\<close>

definition overflow_tech :: technology where
  "overflow_tech = no_fingerprint
     \<lparr>tech_url := Some (PList [''a{4294967296}'', ''example'']),
      tech_cats := Some [2]\<rparr>"

definition jquery_tech :: technology where
  "jquery_tech = no_fingerprint
     \<lparr>tech_scripts := Some (PStr ''jquery''),
      tech_cats := Some [3]\<rparr>"

definition example_technologies :: "(string \<times> tech_entry) list" where
  "example_technologies =
     [(''ExampleCMS'', TechDict example_cms),
      (''nginx'', TechDict nginx_tech),
      (''Broken'', TechDict broken_tech),
      (''note'', TechOther),
      (''jQuery'', TechDict jquery_tech)]"

definition overflow_technologies :: "(string \<times> tech_entry) list" where
  "overflow_technologies =
     [(''ExampleCMS'', TechDict example_cms),
      (''Overflow'', TechDict overflow_tech),
      (''nginx'', TechDict nginx_tech)]"

definition example_categories :: "(string \<times> cat_entry) list" where
  "example_categories =
     [(''1'', CatDict \<lparr>cat_name = Some ''CMS'', cat_groups = Some [10]\<rparr>),
      (''2'', CatDict \<lparr>cat_name = Some ''Web servers'', cat_groups = Some [11, 10]\<rparr>),
      (''3'', CatDict \<lparr>cat_name = Some ''JavaScript libraries'', cat_groups = Some [12]\<rparr>)]"

definition example_groups :: "(string \<times> grp_entry) list" where
  "example_groups =
     [(''10'', GrpDict (Some ''Content'')),
      (''11'', GrpDict (Some ''Servers'')),
      (''12'', GrpDict (Some ''Web development''))]"

definition example_html :: string where
  "example_html = ''<p>ExampleCMS 2.3</p>''"

text \<open>Captures: a page with a script, a body in base64 with an invalid byte, and others.\<close>

definition site_har :: jval where
  "site_har =
     JObj [(''log'', JObj [(''entries'', JArr
       [JObj [(''request'', JObj [(''url'', JStr ''https://cdn.example.org/jquery.js'')]),
              (''response'', JObj [(''content'', JObj [(''mimeType'', JStr ''application/javascript'')])])],
        JObj [(''request'', JObj [(''url'', JStr ''https://example.org/'')]),
              (''response'', JObj
                 [(''headers'', JArr [JObj [(''name'', JStr ''Server''), (''value'', JStr ''nginx/1.18.0'')]]),
                  (''cookies'', JArr [JObj [(''name'', JStr ''sid''), (''value'', JNull)]]),
                  (''content'', JObj [(''mimeType'', JStr ''text/HTML; charset=utf-8''),
                                      (''text'', JStr example_html)])])]])])]"

definition base64_content :: "(string \<times> jval) list" where
  "base64_content =
     [(''mimeType'', JStr ''text/html''), (''text'', JStr ''Qf9C''), (''encoding'', JStr ''base64'')]"

definition base64_entries :: jval where
  "base64_entries =
     JArr [JObj [(''request'', JObj [(''url'', JStr ''https://example.org/'')]),
                 (''response'', JObj [(''content'', JObj base64_content)])]]"

definition base64_har :: jval where
  "base64_har = JObj [(''log'', JObj [(''entries'', base64_entries)])]"

definition base64_result :: har_result where
  "base64_result =
     \<lparr>har_url = JStr ''https://example.org/'', har_html = JStr ''AB'', har_headers = [],
      har_cookies = [], har_scripts = [], har_meta = []\<rparr>"

definition example_files :: "(string \<times> jval) list" where
  "example_files =
     [(''site.har'', site_har),
      (''base64.har'', base64_har),
      (''array.har'', JArr []),
      (''nolog.har'', JObj []),
      (''empty.har'', JObj [(''log'', JObj [(''entries'', JArr [])])])]"

definition example_world :: world where
  "example_world =
     \<lparr>re_search = rx_table
        [((''ExampleCMS ([0-9.]+)'', example_html), Match [Some ''2.3'']),
         ((''nginx/([0-9.]+)'', ''nginx/1.18.0''), Match [Some ''1.18.0'']),
         ((''('', ''https://example.org/''), ReError),
         ((''a{4294967296}'', ''https://example.org/''), Raises OverflowError),
         ((''a{4294967296}'', example_html), Raises OverflowError),
         ((''example'', ''https://example.org/''), Match []),
         ((''jquery'', ''https://cdn.example.org/jquery.js''), Match []),
         ((''jquery'', ''https://cdn.example.org/jquery-ui.js''), Match []),
         ((''a*'', []), Match [])],
      bs4 = soup_table
        [(JStr example_html,
          [\<lparr>tag_name = ''html'', tag_attrs = [], tag_string = Some ''ExampleCMS 2.3''\<rparr>,
           \<lparr>tag_name = ''body'', tag_attrs = [], tag_string = Some ''ExampleCMS 2.3''\<rparr>,
           \<lparr>tag_name = ''p'', tag_attrs = [], tag_string = Some ''ExampleCMS 2.3''\<rparr>]),
         (JStr ''AB'',
          [\<lparr>tag_name = ''html'', tag_attrs = [], tag_string = Some ''AB''\<rparr>,
           \<lparr>tag_name = ''body'', tag_attrs = [], tag_string = Some ''AB''\<rparr>,
           \<lparr>tag_name = ''p'', tag_attrs = [], tag_string = Some ''AB''\<rparr>])],
      int_set_order = (\<lambda>xs. sort (remdups xs)),
      str_set_order = remdups,
      read_json = map_of example_files,
      py_repr = (\<lambda>v. []),
      load_technologies = example_technologies,
      load_categories = example_categories,
      load_groups = example_groups\<rparr>"

definition example_engine :: engine where
  "example_engine =
     \<lparr>technologies = example_technologies, categories_tab = example_categories,
      groups_tab = example_groups, detected = []\<rparr>"

definition overflow_engine :: engine where
  "overflow_engine =
     \<lparr>technologies = overflow_technologies, categories_tab = example_categories,
      groups_tab = example_groups, detected = []\<rparr>"

definition example_signals :: signals where
  "example_signals =
     \<lparr>sig_url = ''https://example.org/'',
      sig_html = example_html,
      sig_headers = Some [(''server'', ''nginx/1.18.0'')],
      sig_cookies = None,
      sig_scripts = Some [''https://cdn.example.org/jquery.js'', ''https://cdn.example.org/jquery-ui.js''],
      sig_meta = None,
      sig_dns = None,
      sig_certIssuer = []\<rparr>"

text \<open>A groups table in which two ids carry the same display name.\<close>

definition same_name_groups :: "(string \<times> grp_entry) list" where
  "same_name_groups =
     [(''10'', GrpDict (Some ''Content'')),
      (''11'', GrpDict (Some ''Content'')),
      (''12'', GrpDict (Some ''Web development''))]"

text \<open>A pattern whose metadata suffix contains a newline.\<close>

definition newline_pattern :: string where
  "newline_pattern = ''jquery'' @ [backslash] @ '';version:'' @ [newline] @ ''x''"

text \<open>
  The result expected for the example signals, and what the call leaves in
  \<open>self.detected\<close>.
\<close>

definition example_result :: "detection list" where
  "example_result =
     [\<lparr>name = ''jQuery'', confidence = 20, versions = [],
       categories = [''JavaScript libraries''], groups = [''Web development'']\<rparr>,
      \<lparr>name = ''ExampleCMS'', confidence = 10, versions = [''2.3''],
       categories = [''CMS''], groups = [''Content'']\<rparr>,
      \<lparr>name = ''nginx'', confidence = 10, versions = [],
       categories = [''Web servers''], groups = [''Content'', ''Servers'']\<rparr>,
      \<lparr>name = ''Broken'', confidence = 10, versions = [],
       categories = [''CMS'', ''Web servers''], groups = [''Content'', ''Servers'']\<rparr>]"

definition example_detected :: "(string \<times> det_data) list" where
  "example_detected =
     [(''ExampleCMS'',
       \<lparr>det_versions = [''2.3''], det_confidence = 10, det_matches = [''html''],
        det_categories = [1]\<rparr>),
      (''nginx'',
       \<lparr>det_versions = [], det_confidence = 10, det_matches = [''headers:Server''],
        det_categories = [2]\<rparr>),
      (''Broken'',
       \<lparr>det_versions = [], det_confidence = 10, det_matches = [''url''],
        det_categories = [1, 2, 7]\<rparr>),
      (''jQuery'',
       \<lparr>det_versions = [], det_confidence = 20, det_matches = [''scripts'', ''scripts''],
        det_categories = [3]\<rparr>)]"

text \<open>The result expected for nginx on the example signals.\<close>

definition nginx_detection :: detection where
  "nginx_detection =
     \<lparr>name = ''nginx'', confidence = 10, versions = [], categories = [''Web servers''],
      groups = [''Content'', ''Servers'']\<rparr>"

text \<open>
  Matches for the version template. In the first, a group text holds a token; in the
  second, the template holds two adjacent backslashes; the third has ten groups, of
  which the first did not take part.
\<close>

definition rescan_text :: string where
  "rescan_text = ''v='' @ [backslash] @ ''2 w=9''"

definition ten_groups :: "string option list" where
  "ten_groups =
     [None, Some ''b'', Some ''c'', Some ''d'', Some ''e'', Some ''f'', Some ''g'', Some ''h'',
      Some ''i'', Some ''j'']"

definition template_engine :: regex_engine where
  "template_engine =
     rx_table
       [((''v=([^ ]+) w=([^ ]+)'', rescan_text), Match [Some [backslash, CHR ''2''], Some ''9'']),
        ((''([0-9a-z]+)-([a-z]+)'', ''2x-Z''), Match [Some ''2x'', Some ''Z'']),
        ((''(a)?(b)(c)(d)(e)(f)(g)(h)(i)(j)'', ''bcdefghij''), Match ten_groups),
        ((''a*'', []), Match [])]"

text \<open>A \<open>json_data\<close> argument that names a capture and also carries signals.\<close>

definition example_json :: "(string \<times> jval) list" where
  "example_json =
     [(''url'', JStr ''https://other.example/''),
      (''har_path'', JStr ''site.har''),
      (''html'', JStr ''unused'')]"

section \<open>Properties\<close>

subsection \<open>The detection loop and the final sort\<close>

lemma ebind_Inr_iff: "ebind m f = Inr y \<longleftrightarrow> (\<exists>x. m = Inr x \<and> f x = Inr y)"
  by (cases m) (simp_all add: ebind_def)

lemma dict_set_fresh: "k \<notin> fst ` set d \<Longrightarrow> dict_set d k v = d @ [(k, v)]"
  by (induction d) auto

lemma detect_step_Nil:
  "detect_step W sp s [] e =
     (case snd e of
        TechOther \<Rightarrow> Inr []
      | TechDict t \<Rightarrow>
          ebind (tech_hits (re_search W) sp s t)
            (\<lambda>h. Inr (if fst h = [] then [] else [(fst e, entry_data W h t)])))"
proof (cases "snd e")
  case TechOther
  then show ?thesis by (simp add: detect_step_def)
next
  case (TechDict t)
  then show ?thesis
    by (cases "tech_hits (re_search W) sp s t") (simp_all add: detect_step_def ebind_def)
qed

lemma detect_step_fresh:
  assumes "fst e \<notin> fst ` set det"
  shows "detect_step W sp s det e = ebind (detect_step W sp s [] e) (\<lambda>xs. Inr (det @ xs))"
proof (cases "snd e")
  case TechOther
  then show ?thesis by (simp add: detect_step_def ebind_def)
next
  case (TechDict t)
  show ?thesis
  proof (cases "tech_hits (re_search W) sp s t")
    case (Inl err)
    then show ?thesis using TechDict by (simp add: detect_step_def ebind_def)
  next
    case (Inr h)
    then show ?thesis using TechDict assms
      by (simp add: detect_step_def ebind_def dict_set_fresh)
  qed
qed

lemma mem_detect_step:
  assumes "detect_step W sp s [] e = Inr xs"
  shows "item \<in> set xs \<longleftrightarrow>
     (\<exists>t h. snd e = TechDict t \<and> tech_hits (re_search W) sp s t = Inr h \<and> fst h \<noteq> [] \<and>
            item = (fst e, entry_data W h t))"
proof (cases "snd e")
  case TechOther
  then show ?thesis using assms by (auto simp: detect_step_Nil)
next
  case (TechDict t)
  then obtain h where h: "tech_hits (re_search W) sp s t = Inr h"
      and xs: "xs = (if fst h = [] then [] else [(fst e, entry_data W h t)])"
    using assms by (auto simp: detect_step_Nil ebind_Inr_iff)
  show ?thesis
  proof
    assume "item \<in> set xs"
    then have "fst h \<noteq> []" "item = (fst e, entry_data W h t)"
      using xs by (auto split: if_splits)
    then show "\<exists>t h. snd e = TechDict t \<and> tech_hits (re_search W) sp s t = Inr h \<and>
        fst h \<noteq> [] \<and> item = (fst e, entry_data W h t)"
      using TechDict h by (intro exI[of _ t] exI[of _ h]) simp
  next
    assume "\<exists>t h. snd e = TechDict t \<and> tech_hits (re_search W) sp s t = Inr h \<and>
        fst h \<noteq> [] \<and> item = (fst e, entry_data W h t)"
    then obtain t' h' where o: "snd e = TechDict t'" "tech_hits (re_search W) sp s t' = Inr h'"
        "fst h' \<noteq> []" "item = (fst e, entry_data W h' t')"
      by blast
    have "t' = t" using o(1) TechDict by simp
    moreover from this have "h' = h" using o(2) h by simp
    ultimately show "item \<in> set xs" using o(3,4) xs by simp
  qed
qed

lemma detect_step_shape:
  assumes "detect_step W sp s [] e = Inr xs"
  shows "xs = [] \<or> (\<exists>v. xs = [(fst e, v)])"
proof (cases "snd e")
  case TechOther
  then show ?thesis using assms by (auto simp: detect_step_Nil)
next
  case (TechDict t)
  then obtain h where "xs = (if fst h = [] then [] else [(fst e, entry_data W h t)])"
    using assms by (auto simp: detect_step_Nil ebind_Inr_iff)
  then show ?thesis by auto
qed

lemma detect_step_keys:
  "detect_step W sp s [] e = Inr xs \<Longrightarrow> fst ` set xs \<subseteq> {fst e}"
  using detect_step_shape[of W sp s e xs] by auto

lemma disjoint_extend:
  "K \<subseteq> {k} \<Longrightarrow> k \<notin> B \<Longrightarrow> A \<inter> B = {} \<Longrightarrow> (A \<union> K) \<inter> B = {}"
  by blast

text \<open>
  When the loop ends without an exception, every turn has returned, and with distinct
  names \<open>self.detected\<close> holds what the turns contribute, in the order of the table.
\<close>

lemma detect_all_items:
  "distinct (map fst techs) \<Longrightarrow> fst ` set det \<inter> fst ` set techs = {} \<Longrightarrow>
   detect_all W sp s det techs = (None, det') \<Longrightarrow>
   \<exists>xss. list_all2 (\<lambda>e xs. detect_step W sp s [] e = Inr xs) techs xss \<and>
         det' = det @ concat xss"
proof (induction techs arbitrary: det)
  case Nil
  then show ?case by simp
next
  case (Cons e techs)
  have fresh: "fst e \<notin> fst ` set det" using Cons.prems(2) by auto
  obtain det1 where d1: "detect_step W sp s det e = Inr det1"
      and rest: "detect_all W sp s det1 techs = (None, det')"
    using Cons.prems(3) by (cases "detect_step W sp s det e") simp_all
  obtain xs where xs: "detect_step W sp s [] e = Inr xs" and det1: "det1 = det @ xs"
    using d1 unfolding detect_step_fresh[OF fresh] ebind_Inr_iff by auto
  have keys: "fst ` set xs \<subseteq> {fst e}"
    using xs by (rule detect_step_keys)
  have e_new: "fst e \<notin> fst ` set techs"
    using Cons.prems(1) by simp
  have det_disj: "fst ` set det \<inter> fst ` set techs = {}"
    using Cons.prems(2) by auto
  have disj: "fst ` set det1 \<inter> fst ` set techs = {}"
    unfolding det1 set_append image_Un by (rule disjoint_extend[OF keys e_new det_disj])
  have dist: "distinct (map fst techs)" using Cons.prems(1) by simp
  obtain xss where xss: "list_all2 (\<lambda>e xs. detect_step W sp s [] e = Inr xs) techs xss"
      and d': "det' = det1 @ concat xss"
    using Cons.IH[OF dist disj rest] by blast
  have "list_all2 (\<lambda>e xs. detect_step W sp s [] e = Inr xs) (e # techs) (xs # xss)"
    using xs xss by simp
  moreover have "det' = det @ concat (xs # xss)"
    using d' det1 by simp
  ultimately show ?case by blast
qed

lemma run_detection_items:
  assumes "distinct (map fst (technologies eng))"
    and "run_detection W eng s = (None, det)"
  shows "\<exists>xss. list_all2 (\<lambda>e xs. detect_step W (make_soup W (sig_html s)) s [] e = Inr xs)
                 (technologies eng) xss \<and>
               det = concat xss"
  using detect_all_items[of "technologies eng" "[]" W "make_soup W (sig_html s)" s det] assms
  by (simp add: run_detection_def)

lemma items_keys_subseq:
  "list_all2 (\<lambda>e xs. detect_step W sp s [] e = Inr xs) techs xss \<Longrightarrow>
   subseq (map fst (concat xss)) (map fst techs)"
proof (induction rule: list_all2_induct)
  case Nil
  then show ?case by simp
next
  case (Cons e techs xs xss)
  from detect_step_shape[OF Cons.hyps(1)] show ?case
  proof
    assume "xs = []"
    then show ?thesis using Cons.IH by (simp add: list_emb_Cons)
  next
    assume "\<exists>v. xs = [(fst e, v)]"
    then show ?thesis using Cons.IH by auto
  qed
qed

lemma distinct_subseq: "subseq xs ys \<Longrightarrow> distinct ys \<Longrightarrow> distinct xs"
  by (induction rule: list_emb.induct) (auto dest: list_emb_set)

lemma items_keys_distinct:
  "list_all2 (\<lambda>e xs. detect_step W sp s [] e = Inr xs) techs xss \<Longrightarrow>
   distinct (map fst techs) \<Longrightarrow> distinct (map fst (concat xss))"
  using items_keys_subseq[of W sp s techs xss] distinct_subseq by blast

lemma mem_items:
  "list_all2 (\<lambda>e xs. detect_step W sp s [] e = Inr xs) techs xss \<Longrightarrow>
   item \<in> set (concat xss) \<longleftrightarrow>
     (\<exists>e \<in> set techs. \<exists>t h. snd e = TechDict t \<and> tech_hits (re_search W) sp s t = Inr h \<and>
         fst h \<noteq> [] \<and> item = (fst e, entry_data W h t))"
proof (induction rule: list_all2_induct)
  case Nil
  then show ?case by simp
next
  case (Cons e techs xs xss)
  show ?case
    using mem_detect_step[OF Cons.hyps(1), of item] Cons.IH by auto
qed

lemma items_all_return:
  "list_all2 (\<lambda>e xs. detect_step W sp s [] e = Inr xs) techs xss \<Longrightarrow>
   (n, TechDict t) \<in> set techs \<Longrightarrow> \<exists>h. tech_hits (re_search W) sp s t = Inr h"
proof (induction rule: list_all2_induct)
  case Nil
  then show ?case by simp
next
  case (Cons e techs xs xss)
  show ?case
  proof (cases "e = (n, TechDict t)")
    case True
    then show ?thesis using Cons.hyps(1) by (auto simp: detect_step_Nil ebind_Inr_iff)
  next
    case False
    then show ?thesis using Cons by auto
  qed
qed

lemma sort_reverse_stable:
  "filter (\<lambda>x. key x = k) (sort_reverse key xs) = filter (\<lambda>x. key x = k) xs"
  by (simp add: sort_reverse_def rev_filter[symmetric] sort_key_stable)

lemma sort_reverse_sorted:
  "sorted_wrt (\<lambda>a b. key b \<le> key a) (sort_reverse key xs)"
proof -
  have "sorted (map key (sort_key key (rev xs)))" by (rule sorted_sort_key)
  then have "sorted_wrt (\<lambda>a b. key a \<le> key b) (sort_key key (rev xs))"
    by (simp add: sorted_map)
  then show ?thesis
    by (simp add: sort_reverse_def sorted_wrt_rev)
qed

lemma set_sort_reverse: "set (sort_reverse key xs) = set xs"
  by (simp add: sort_reverse_def)

lemma run_detection_detected: "run_detection W (eng\<lparr>detected := d\<rparr>) s = run_detection W eng s"
  by (simp add: run_detection_def)

lemma format_one_detected: "format_one W (eng\<lparr>detected := d\<rparr>) = format_one W eng"
  by (rule ext) (simp add: format_one_def)

text \<open>A call of \<open>analyze\<close> that returns: the loop has ended without an exception.\<close>

lemma analyze_returned:
  assumes "fst (analyze W eng s) = Inr res"
  shows "\<exists>det. run_detection W eng s = (None, det) \<and>
               snd (analyze W eng s) = eng\<lparr>detected := det\<rparr> \<and>
               res = sort_reverse confidence (map (format_one W eng) det)"
proof (cases "run_detection W eng s")
  case (Pair err det)
  show ?thesis
  proof (cases err)
    case None
    then show ?thesis using assms Pair
      by (simp add: analyze_def format_results_def format_one_detected)
  next
    case (Some e)
    then show ?thesis using assms Pair by (simp add: analyze_def)
  qed
qed

lemma name_format_one: "name (format_one W eng item) = fst item"
  by (simp add: format_one_def)

lemma confidence_format_one: "confidence (format_one W eng item) = det_confidence (snd item)"
  by (simp add: format_one_def)

text \<open>
  C3: the list returned by \<open>analyze\<close> is in descending order of confidence, and the
  detections of one confidence appear in the order of the technology table (the names
  of the table are distinct, as the keys of a \<open>dict\<close> are): the sort is stable. This
  holds for every call that returns a list, which is every call in which no check lets
  an exception through.
\<close>

theorem analyze_sorted_stable:
  assumes "distinct (map fst (technologies eng))"
    and "fst (analyze W eng s) = Inr res"
  shows "sorted_wrt (\<lambda>a b. confidence b \<le> confidence a) res \<and>
         (\<forall>c. subseq (map name (filter (\<lambda>d. confidence d = c) res))
                 (map fst (technologies eng)))"
proof
  obtain det where det: "run_detection W eng s = (None, det)"
      and res: "res = sort_reverse confidence (map (format_one W eng) det)"
    using analyze_returned[OF assms(2)] by blast
  let ?fmt = "format_one W eng"
  show "sorted_wrt (\<lambda>a b. confidence b \<le> confidence a) res"
    unfolding res by (rule sort_reverse_sorted)
  show "\<forall>c. subseq (map name (filter (\<lambda>d. confidence d = c) res)) (map fst (technologies eng))"
  proof
    fix c
    have "filter (\<lambda>d. confidence d = c) res = filter (\<lambda>d. confidence d = c) (map ?fmt det)"
      unfolding res by (rule sort_reverse_stable)
    also have "\<dots> = map ?fmt (filter (\<lambda>item. det_confidence (snd item) = c) det)"
      by (simp add: filter_map o_def confidence_format_one)
    finally have "map name (filter (\<lambda>d. confidence d = c) res)
          = map fst (filter (\<lambda>item. det_confidence (snd item) = c) det)"
      by (simp add: o_def name_format_one)
    moreover have "subseq (map fst (filter (\<lambda>item. det_confidence (snd item) = c) det))
                     (map fst det)"
      by (intro subseq_map subseq_filter_left)
    moreover have "subseq (map fst det) (map fst (technologies eng))"
      using run_detection_items[OF assms(1) det] items_keys_subseq by blast
    ultimately show "subseq (map name (filter (\<lambda>d. confidence d = c) res))
                       (map fst (technologies eng))"
      using subseq_order.order_trans by metis
  qed
qed

theorem analyze_sorted_stable_witness:
  "distinct (map fst (technologies example_engine)) \<and>
   fst (analyze example_world example_engine example_signals) = Inr example_result \<and>
   sorted_wrt (\<lambda>a b. confidence b \<le> confidence a) example_result \<and>
   (\<forall>c. subseq (map name (filter (\<lambda>d. confidence d = c) example_result))
          (map fst (technologies example_engine))) \<and>
   map (\<lambda>d. (name d, confidence d)) example_result
     = [(''jQuery'', 20), (''ExampleCMS'', 10), (''nginx'', 10), (''Broken'', 10)]"
proof -
  have d: "distinct (map fst (technologies example_engine))"
    by code_simp
  have a: "fst (analyze example_world example_engine example_signals) = Inr example_result"
    by code_simp
  have r: "map (\<lambda>d. (name d, confidence d)) example_result
           = [(''jQuery'', 20), (''ExampleCMS'', 10), (''nginx'', 10), (''Broken'', 10)]"
    by code_simp
  show ?thesis
    using d a r analyze_sorted_stable[OF d a] by simp
qed

lemma mem_run_detection:
  assumes "distinct (map fst (technologies eng))"
    and "run_detection W eng s = (None, det)"
  shows "item \<in> set det \<longleftrightarrow>
         (\<exists>t h. (fst item, TechDict t) \<in> set (technologies eng) \<and>
                tech_hits (re_search W) (make_soup W (sig_html s)) s t = Inr h \<and>
                fst h \<noteq> [] \<and> snd item = entry_data W h t)"
proof -
  let ?sp = "make_soup W (sig_html s)"
  obtain xss where xss: "list_all2 (\<lambda>e xs. detect_step W ?sp s [] e = Inr xs)
                           (technologies eng) xss"
      and det: "det = concat xss"
    using run_detection_items[OF assms] by blast
  show ?thesis
  proof
    assume "item \<in> set det"
    then obtain e t h where e: "e \<in> set (technologies eng)" "snd e = TechDict t"
        "tech_hits (re_search W) ?sp s t = Inr h" "fst h \<noteq> []" "item = (fst e, entry_data W h t)"
      unfolding det mem_items[OF xss] by blast
    have "e = (fst item, TechDict t)" using e(2,5) by (cases e) simp
    then have "(fst item, TechDict t) \<in> set (technologies eng)" using e(1) by simp
    moreover have "snd item = entry_data W h t" using e(5) by simp
    ultimately show "\<exists>t h. (fst item, TechDict t) \<in> set (technologies eng) \<and>
        tech_hits (re_search W) ?sp s t = Inr h \<and> fst h \<noteq> [] \<and> snd item = entry_data W h t"
      using e(3,4) by blast
  next
    assume "\<exists>t h. (fst item, TechDict t) \<in> set (technologies eng) \<and>
        tech_hits (re_search W) ?sp s t = Inr h \<and> fst h \<noteq> [] \<and> snd item = entry_data W h t"
    then obtain t h where t: "(fst item, TechDict t) \<in> set (technologies eng)"
        "tech_hits (re_search W) ?sp s t = Inr h" "fst h \<noteq> []" "snd item = entry_data W h t"
      by blast
    have it: "item = (fst (fst item, TechDict t), entry_data W h t)"
      using t(4) by (cases item) simp
    have ex: "\<exists>t' h'. snd (fst item, TechDict t) = TechDict t' \<and>
        tech_hits (re_search W) ?sp s t' = Inr h' \<and> fst h' \<noteq> [] \<and>
        item = (fst (fst item, TechDict t), entry_data W h' t')"
      using it t(2,3) by (intro exI[of _ t] exI[of _ h]) simp
    show "item \<in> set det"
      unfolding det mem_items[OF xss]
      by (rule bexI[where P = "\<lambda>e. \<exists>t h. snd e = TechDict t \<and>
            tech_hits (re_search W) ?sp s t = Inr h \<and> fst h \<noteq> [] \<and>
            item = (fst e, entry_data W h t)", OF ex t(1)])
  qed
qed

lemma capped_confidence:
  assumes "m \<noteq> []"
  shows "min (length m * 10) (100::nat) \<in> {10, 20, 30, 40, 50, 60, 70, 80, 90, 100}"
proof -
  have pos: "1 \<le> length m" using assms by (cases m) simp_all
  show ?thesis
  proof (cases "10 \<le> length m")
    case True
    then show ?thesis by simp
  next
    case False
    then have "length m = 1 \<or> length m = 2 \<or> length m = 3 \<or> length m = 4 \<or> length m = 5 \<or>
               length m = 6 \<or> length m = 7 \<or> length m = 8 \<or> length m = 9"
      using pos by arith
    then show ?thesis by auto
  qed
qed

lemma distinct_map_sort_reverse:
  "distinct (map f (sort_reverse key xs)) = distinct (map f xs)"
  by (simp add: sort_reverse_def distinct_map)

lemma names_distinct:
  assumes "distinct (map fst (technologies eng))"
    and "fst (analyze W eng s) = Inr res"
  shows "distinct (map name res)"
proof -
  obtain det where det: "run_detection W eng s = (None, det)"
      and res: "res = sort_reverse confidence (map (format_one W eng) det)"
    using analyze_returned[OF assms(2)] by blast
  have fn: "(\<lambda>item. name (format_one W eng item)) = fst"
    by (rule ext) (simp add: name_format_one)
  have "distinct (map fst det)"
    using run_detection_items[OF assms(1) det] items_keys_distinct assms(1) by blast
  then have "distinct (map name (map (format_one W eng) det))"
    by (simp add: o_def fn)
  then show ?thesis
    unfolding res distinct_map_sort_reverse .
qed

lemma analyze_matches_Inr:
  "analyze_matches W s t = Inr labels \<longleftrightarrow>
     (\<exists>h. tech_hits (re_search W) (make_soup W (sig_html s)) s t = Inr h \<and> labels = fst h)"
  by (auto simp: analyze_matches_def ebind_Inr_iff)

lemma detections_and_matches:
  assumes "distinct (map fst (technologies eng))"
    and "fst (analyze W eng s) = Inr res"
  shows "(\<forall>d \<in> set res.
            \<exists>t labels. (name d, TechDict t) \<in> set (technologies eng) \<and>
                analyze_matches W s t = Inr labels \<and> labels \<noteq> [] \<and>
                confidence d = min (10 * length labels) 100 \<and>
                confidence d \<in> {10, 20, 30, 40, 50, 60, 70, 80, 90, 100}) \<and>
         (\<forall>n t. (n, TechDict t) \<in> set (technologies eng) \<longrightarrow>
            (\<exists>labels. analyze_matches W s t = Inr labels \<and>
               (labels \<noteq> [] \<longrightarrow> (\<exists>d \<in> set res. name d = n))))"
proof (intro conjI ballI allI impI)
  let ?sp = "make_soup W (sig_html s)"
  let ?fmt = "format_one W eng"
  obtain det where det: "run_detection W eng s = (None, det)"
      and res: "res = sort_reverse confidence (map ?fmt det)"
    using analyze_returned[OF assms(2)] by blast
  have set_res: "set res = ?fmt ` set det"
    unfolding res by (simp add: set_sort_reverse)
  {
    fix d assume "d \<in> set res"
    then obtain item where item: "item \<in> set det" "d = ?fmt item"
      unfolding set_res by blast
    from item(1) obtain t h where t: "(fst item, TechDict t) \<in> set (technologies eng)"
        "tech_hits (re_search W) ?sp s t = Inr h" "fst h \<noteq> []" "snd item = entry_data W h t"
      unfolding mem_run_detection[OF assms(1) det] by blast
    have lab: "analyze_matches W s t = Inr (fst h)"
      using t(2) by (simp add: analyze_matches_Inr)
    have nm: "name d = fst item" using item(2) by (simp add: name_format_one)
    have cf: "confidence d = min (10 * length (fst h)) 100"
      using item(2) t(4)
      by (simp add: confidence_format_one entry_data_def mult.commute)
    have "min (length (fst h) * 10) (100::nat) \<in> {10, 20, 30, 40, 50, 60, 70, 80, 90, 100}"
      using t(3) by (rule capped_confidence)
    then have rng: "confidence d \<in> {10, 20, 30, 40, 50, 60, 70, 80, 90, 100}"
      using cf by (simp add: mult.commute)
    show "\<exists>t labels. (name d, TechDict t) \<in> set (technologies eng) \<and>
                analyze_matches W s t = Inr labels \<and> labels \<noteq> [] \<and>
                confidence d = min (10 * length labels) 100 \<and>
                confidence d \<in> {10, 20, 30, 40, 50, 60, 70, 80, 90, 100}"
      using t(1,3) lab nm cf rng by (intro exI[of _ t] exI[of _ "fst h"]) simp
  }
  {
    fix n t assume a: "(n, TechDict t) \<in> set (technologies eng)"
    obtain xss where xss: "list_all2 (\<lambda>e xs. detect_step W ?sp s [] e = Inr xs)
                             (technologies eng) xss"
      using run_detection_items[OF assms(1) det] by blast
    obtain h where h: "tech_hits (re_search W) ?sp s t = Inr h"
      using items_all_return[OF xss a] by blast
    have lab: "analyze_matches W s t = Inr (fst h)"
      using h by (simp add: analyze_matches_Inr)
    have "\<exists>d \<in> set res. name d = n" if ne: "fst h \<noteq> []"
    proof -
      have "\<exists>t' h'. (fst (n, entry_data W h t), TechDict t') \<in> set (technologies eng) \<and>
          tech_hits (re_search W) ?sp s t' = Inr h' \<and> fst h' \<noteq> [] \<and>
          snd (n, entry_data W h t) = entry_data W h' t'"
        using a h ne by (intro exI[of _ t] exI[of _ h]) simp
      then have "(n, entry_data W h t) \<in> set det"
        unfolding mem_run_detection[OF assms(1) det] .
      then have "?fmt (n, entry_data W h t) \<in> set res"
        unfolding set_res by (rule imageI)
      then show ?thesis
        by (intro bexI[of _ "?fmt (n, entry_data W h t)"]) (simp_all add: name_format_one)
    qed
    then show "\<exists>labels. analyze_matches W s t = Inr labels \<and>
               (labels \<noteq> [] \<longrightarrow> (\<exists>d \<in> set res. name d = n))"
      using lab by blast
  }
qed

text \<open>
  C4: a technology of the table is among the results exactly when \<open>analyze\<close>
  collected at least one label for it, its confidence is ten times the number of labels
  (every successful check counted, repeated labels included), capped at 100, and so is
  one of 10, 20, ..., 100. No technology has two results. This holds for every call that
  returns a list, which is every call in which no check lets an exception through; the
  checks of every technology of the table have then returned their labels.
\<close>

theorem detection_iff_matches:
  assumes "distinct (map fst (technologies eng))"
    and "fst (analyze W eng s) = Inr res"
  shows "((\<forall>d \<in> set res.
             \<exists>t labels. (name d, TechDict t) \<in> set (technologies eng) \<and>
                 analyze_matches W s t = Inr labels \<and> labels \<noteq> [] \<and>
                 confidence d = min (10 * length labels) 100 \<and>
                 confidence d \<in> {10, 20, 30, 40, 50, 60, 70, 80, 90, 100}) \<and>
          (\<forall>n t. (n, TechDict t) \<in> set (technologies eng) \<longrightarrow>
             (\<exists>labels. analyze_matches W s t = Inr labels \<and>
                (labels \<noteq> [] \<longrightarrow> (\<exists>d \<in> set res. name d = n))))) \<and>
         distinct (map name res)"
  using detections_and_matches[OF assms] names_distinct[OF assms] by blast

theorem detection_iff_matches_witness:
  "distinct (map fst (technologies example_engine)) \<and>
   fst (analyze example_world example_engine example_signals) = Inr example_result \<and>
   (''jQuery'', TechDict jquery_tech) \<in> set (technologies example_engine) \<and>
   analyze_matches example_world example_signals jquery_tech = Inr [''scripts'', ''scripts''] \<and>
   (\<exists>d \<in> set example_result. name d = ''jQuery'') \<and>
   map (\<lambda>d. (name d, confidence d)) example_result
     = [(''jQuery'', 20), (''ExampleCMS'', 10), (''nginx'', 10), (''Broken'', 10)]"
proof -
  have d: "distinct (map fst (technologies example_engine))"
    by code_simp
  have a: "fst (analyze example_world example_engine example_signals) = Inr example_result"
    by code_simp
  have m: "(''jQuery'', TechDict jquery_tech) \<in> set (technologies example_engine)"
    by (simp add: example_engine_def example_technologies_def)
  have l: "analyze_matches example_world example_signals jquery_tech = Inr [''scripts'', ''scripts'']"
    by code_simp
  have r: "map (\<lambda>d. (name d, confidence d)) example_result
           = [(''jQuery'', 20), (''ExampleCMS'', 10), (''nginx'', 10), (''Broken'', 10)]"
    by code_simp
  note main = detection_iff_matches[OF d a]
  have ex: "\<exists>d \<in> set example_result. name d = ''jQuery''"
    using main m l by fastforce
  show ?thesis using d a m l r ex by blast
qed

subsection \<open>State kept on the detector\<close>

lemma analyze_detected: "analyze W (eng\<lparr>detected := d\<rparr>) s = analyze W eng s"
  by (simp add: analyze_def run_detection_detected split: prod.splits option.splits)

lemma snd_analyze:
  "snd (analyze W eng s) = eng\<lparr>detected := snd (run_detection W eng s)\<rparr>"
  by (simp add: analyze_def split: prod.splits option.splits)

lemma stored_names:
  assumes "fst (analyze W eng s) = Inr res"
  shows "set (map fst (detected (snd (analyze W eng s)))) = set (map name res)"
proof -
  obtain det where det: "snd (analyze W eng s) = eng\<lparr>detected := det\<rparr>"
      and res: "res = sort_reverse confidence (map (format_one W eng) det)"
    using analyze_returned[OF assms] by blast
  have "set (map name res) = set (map fst det)"
    unfolding res by (simp add: set_sort_reverse image_image name_format_one)
  then show ?thesis using det by simp
qed

lemma stored_entries:
  assumes "distinct (map fst (technologies eng))"
    and "fst (analyze W eng s) = Inr res"
  shows "item \<in> set (detected (snd (analyze W eng s))) \<longleftrightarrow>
         (\<exists>t h. (fst item, TechDict t) \<in> set (technologies eng) \<and>
                tech_hits (re_search W) (make_soup W (sig_html s)) s t = Inr h \<and>
                fst h \<noteq> [] \<and> snd item = entry_data W h t)"
proof -
  obtain det where run: "run_detection W eng s = (None, det)"
      and det: "snd (analyze W eng s) = eng\<lparr>detected := det\<rparr>"
    using analyze_returned[OF assms(2)] by blast
  show ?thesis
    using mem_run_detection[OF assms(1) run, of item] det by simp
qed

lemma stored_matches:
  assumes "distinct (map fst (technologies eng))"
    and "fst (analyze W eng s) = Inr res"
    and "item \<in> set (detected (snd (analyze W eng s)))"
  shows "\<exists>t. (fst item, TechDict t) \<in> set (technologies eng) \<and>
             analyze_matches W s t = Inr (det_matches (snd item)) \<and>
             det_matches (snd item) \<noteq> []"
proof -
  obtain t h where t: "(fst item, TechDict t) \<in> set (technologies eng)"
      "tech_hits (re_search W) (make_soup W (sig_html s)) s t = Inr h"
      "fst h \<noteq> []" "snd item = entry_data W h t"
    using assms(3) unfolding stored_entries[OF assms(1,2)] by blast
  have m: "det_matches (snd item) = fst h"
    using t(4) by (simp add: entry_data_def)
  have "analyze_matches W s t = Inr (fst h)"
    using t(2) by (simp add: analyze_matches_Inr)
  then show ?thesis using t(1,3) m by auto
qed

text \<open>
  C5, as stated, fails: the per-technology detection map is the attribute
  \<open>self.detected\<close>, and when \<open>analyze\<close> has returned it is still on the detector, with
  the match list and the versions of every detected technology.
\<close>

theorem detected_survives_the_call:
  "map (\<lambda>item. (fst item, det_matches (snd item), det_versions (snd item)))
     (detected (snd (analyze example_world example_engine example_signals)))
     = [(''ExampleCMS'', [''html''], [''2.3'']),
        (''nginx'', [''headers:Server''], []),
        (''Broken'', [''url''], []),
        (''jQuery'', [''scripts'', ''scripts''], [])]"
  by code_simp

text \<open>
  C5, amended: besides the three fingerprint tables the detector keeps
  \<open>self.detected\<close>. \<open>analyze\<close> replaces it before any check and never reads what an
  earlier call left in it, so the outcome of a call (what it returns or raises, and the
  map it leaves behind) does not depend on earlier calls, and the three tables stay as
  they were. After a call that returns, \<open>self.detected\<close> holds the technologies of the
  result and, for each of them (the names of the table being distinct), the entry built
  from the labels and versions collected for it: its match list, which is not empty, its
  versions, its confidence and its category ids.
\<close>

theorem analyze_independent_of_earlier_calls:
  "analyze W (eng\<lparr>detected := d\<rparr>) later = analyze W eng later \<and>
   analyze W (snd (analyze W eng s)) later = analyze W eng later \<and>
   technologies (snd (analyze W eng s)) = technologies eng \<and>
   categories_tab (snd (analyze W eng s)) = categories_tab eng \<and>
   groups_tab (snd (analyze W eng s)) = groups_tab eng \<and>
   (fst (analyze W eng s) = Inr res \<longrightarrow>
      set (map fst (detected (snd (analyze W eng s)))) = set (map name res)) \<and>
   (distinct (map fst (technologies eng)) \<and> fst (analyze W eng s) = Inr res \<longrightarrow>
      (\<forall>item. item \<in> set (detected (snd (analyze W eng s))) \<longleftrightarrow>
         (\<exists>t h. (fst item, TechDict t) \<in> set (technologies eng) \<and>
                tech_hits (re_search W) (make_soup W (sig_html s)) s t = Inr h \<and>
                fst h \<noteq> [] \<and> snd item = entry_data W h t)) \<and>
      (\<forall>item \<in> set (detected (snd (analyze W eng s))).
         \<exists>t. (fst item, TechDict t) \<in> set (technologies eng) \<and>
             analyze_matches W s t = Inr (det_matches (snd item)) \<and>
             det_matches (snd item) \<noteq> []))"
proof (intro conjI impI allI ballI)
  show "analyze W (eng\<lparr>detected := d\<rparr>) later = analyze W eng later"
    by (rule analyze_detected)
  show "analyze W (snd (analyze W eng s)) later = analyze W eng later"
    unfolding snd_analyze by (rule analyze_detected)
  show "technologies (snd (analyze W eng s)) = technologies eng"
    by (simp add: snd_analyze)
  show "categories_tab (snd (analyze W eng s)) = categories_tab eng"
    by (simp add: snd_analyze)
  show "groups_tab (snd (analyze W eng s)) = groups_tab eng"
    by (simp add: snd_analyze)
  show "set (map fst (detected (snd (analyze W eng s)))) = set (map name res)"
    if "fst (analyze W eng s) = Inr res"
    using that by (rule stored_names)
  show "item \<in> set (detected (snd (analyze W eng s))) \<longleftrightarrow>
         (\<exists>t h. (fst item, TechDict t) \<in> set (technologies eng) \<and>
                tech_hits (re_search W) (make_soup W (sig_html s)) s t = Inr h \<and>
                fst h \<noteq> [] \<and> snd item = entry_data W h t)"
    if "distinct (map fst (technologies eng)) \<and> fst (analyze W eng s) = Inr res" for item
    using that stored_entries[of eng W s res item] by blast
  show "\<exists>t. (fst item, TechDict t) \<in> set (technologies eng) \<and>
             analyze_matches W s t = Inr (det_matches (snd item)) \<and>
             det_matches (snd item) \<noteq> []"
    if "distinct (map fst (technologies eng)) \<and> fst (analyze W eng s) = Inr res"
      and "item \<in> set (detected (snd (analyze W eng s)))" for item
    using that stored_matches[of eng W s res item] by blast
qed

theorem analyze_independent_of_earlier_calls_witness:
  "distinct (map fst (technologies example_engine)) \<and>
   fst (analyze example_world example_engine example_signals) = Inr example_result \<and>
   detected (snd (analyze example_world example_engine example_signals)) = example_detected \<and>
   set (map fst example_detected) = set (map name example_result) \<and>
   (''jQuery'', TechDict jquery_tech) \<in> set (technologies example_engine) \<and>
   analyze_matches example_world example_signals jquery_tech = Inr [''scripts'', ''scripts''] \<and>
   analyze example_world (snd (analyze example_world example_engine example_signals))
          (example_signals\<lparr>sig_scripts := None\<rparr>)
     = analyze example_world example_engine (example_signals\<lparr>sig_scripts := None\<rparr>) \<and>
   map_sum id (map name)
     (fst (analyze example_world example_engine (example_signals\<lparr>sig_scripts := None\<rparr>)))
     = Inr [''ExampleCMS'', ''nginx'', ''Broken'']"
proof -
  have d: "distinct (map fst (technologies example_engine))"
    by code_simp
  have a: "fst (analyze example_world example_engine example_signals) = Inr example_result"
    by code_simp
  have st: "detected (snd (analyze example_world example_engine example_signals)) = example_detected"
    by code_simp
  have m: "(''jQuery'', TechDict jquery_tech) \<in> set (technologies example_engine)"
    by (simp add: example_engine_def example_technologies_def)
  have l: "analyze_matches example_world example_signals jquery_tech = Inr [''scripts'', ''scripts'']"
    by code_simp
  have r: "map_sum id (map name)
     (fst (analyze example_world example_engine (example_signals\<lparr>sig_scripts := None\<rparr>)))
     = Inr [''ExampleCMS'', ''nginx'', ''Broken'']"
    by code_simp
  note main = analyze_independent_of_earlier_calls[where W = example_world
      and eng = example_engine and d = "[]" and s = example_signals
      and later = "example_signals\<lparr>sig_scripts := None\<rparr>" and res = example_result]
  have n: "set (map fst example_detected) = set (map name example_result)"
    using main a st by simp
  have e: "analyze example_world (snd (analyze example_world example_engine example_signals))
          (example_signals\<lparr>sig_scripts := None\<rparr>)
     = analyze example_world example_engine (example_signals\<lparr>sig_scripts := None\<rparr>)"
    using main by blast
  show ?thesis
    using d a st n m l e r by blast
qed

subsection \<open>The metadata suffix\<close>

lemma rest_of_line_no_newline: "newline \<notin> set t \<Longrightarrow> rest_of_line t = []"
  by (auto simp: rest_of_line_def)

text \<open>On a pattern without a newline the suffix is stripped as specified.\<close>

lemma strip_without_newline:
  "newline \<notin> set p \<Longrightarrow> strip_wappalyzer_pattern p = before_marker p"
proof (induction p rule: strip_wappalyzer_pattern.induct)
  case 1
  then show ?case by simp
next
  case (2 c cs)
  show ?case
  proof (cases cs)
    case Nil
    then show ?thesis by simp
  next
    case (Cons d t)
    have nl: "newline \<notin> set t" "newline \<notin> set cs" using "2.prems" Cons by simp_all
    show ?thesis
    proof (cases "c = backslash \<and> d = CHR '';''")
      case True
      then show ?thesis using Cons nl by (simp add: rest_of_line_no_newline dollar_here_def)
    next
      case False
      then have "strip_wappalyzer_pattern cs = before_marker cs"
        using "2.IH"[OF Cons] nl(2) by (auto simp: rest_of_line_no_newline dollar_here_def)
      then show ?thesis using Cons False by auto
    qed
  qed
qed

text \<open>
  C9: on a pattern whose suffix after the backslash-semicolon contains a newline the
  source strips nothing, although the suffix starts after \<open>jquery\<close>: the whole string,
  suffix included, is what gets compiled.
\<close>

theorem suffix_with_newline_not_stripped:
  "strip_wappalyzer_pattern newline_pattern = newline_pattern \<and>
   before_marker newline_pattern = ''jquery''"
  by (simp add: newline_pattern_def backslash_def newline_def rest_of_line_def dollar_here_def)

subsection \<open>Patterns on which \<open>re.search\<close> raises\<close>

text \<open>A pattern on which \<open>re.search\<close> raises \<open>re.error\<close> is passed over.\<close>

lemma search_any_skips:
  "search_any rx text (filter (\<lambda>p. \<not> re_error_on rx text p) ps) = search_any rx text ps"
  by (induction ps) (auto simp: re_error_on_def split: re_result.splits)

lemma search_versioned_skips:
  "search_versioned rx text (filter (\<lambda>e. \<not> re_error_on rx text (fst e)) es)
     = search_versioned rx text es"
  by (induction es) (auto simp: re_error_on_def split: re_result.splits)

lemma search_any_Nil_filter:
  "filter (\<lambda>p. \<not> re_error_on rx text p) ps = [] \<Longrightarrow> search_any rx text ps = Inr False"
  using search_any_skips[of rx "text" ps] by simp

lemma search_versioned_Nil_filter:
  "filter (\<lambda>e. \<not> re_error_on rx text (fst e)) es = [] \<Longrightarrow>
   search_versioned rx text es = Inr (False, None)"
  using search_versioned_skips[of rx "text" es] by simp

lemma map_fst_filter_re_error:
  "map fst (filter (\<lambda>e. \<not> re_error_on rx text (fst e)) es)
     = filter (\<lambda>p. \<not> re_error_on rx text p) (map fst es)"
  by (simp add: filter_map o_def)

lemma check_pattern_skips:
  "check_pattern rx text (without_re_errors rx text spec) = check_pattern rx text spec"
proof (cases spec)
  case (PStr s)
  show ?thesis
  proof (cases "re_error_on rx text s")
    case False
    then show ?thesis using PStr by simp
  next
    case True
    then have "search_any rx text [s] = Inr False"
      by (simp add: re_error_on_def)
    then show ?thesis using PStr True by (simp add: check_pattern_def)
  qed
next
  case (PList ps)
  show ?thesis
  proof (cases "filter (\<lambda>p. \<not> re_error_on rx text p) ps = []")
    case True
    then show ?thesis using PList search_any_Nil_filter[OF True]
      by (simp add: check_pattern_def)
  next
    case False
    then have "ps \<noteq> []" by auto
    then show ?thesis using PList False
      by (simp add: check_pattern_def search_any_skips)
  qed
next
  case (PDict es)
  show ?thesis
  proof (cases "filter (\<lambda>e. \<not> re_error_on rx text (fst e)) es = []")
    case True
    then have "filter (\<lambda>p. \<not> re_error_on rx text p) (map fst es) = []"
      using map_fst_filter_re_error[of rx "text" es] by simp
    then have "search_any rx text (map fst es) = Inr False"
      by (rule search_any_Nil_filter)
    then show ?thesis using PDict True
      by (simp add: check_pattern_def)
  next
    case False
    then have "es \<noteq> []" by auto
    then show ?thesis using PDict False
      by (simp add: check_pattern_def map_fst_filter_re_error search_any_skips)
  qed
qed

lemma check_pattern_with_version_skips:
  "check_pattern_with_version rx text (without_re_errors rx text spec)
     = check_pattern_with_version rx text spec"
proof (cases spec)
  case (PStr s)
  show ?thesis
  proof (cases "re_error_on rx text s")
    case False
    then show ?thesis using PStr by simp
  next
    case True
    then have "search_any rx text [s] = Inr False"
      by (simp add: re_error_on_def)
    then show ?thesis using PStr True by (simp add: check_pattern_with_version_def ebind_def)
  qed
next
  case (PList ps)
  show ?thesis
  proof (cases "filter (\<lambda>p. \<not> re_error_on rx text p) ps = []")
    case True
    then show ?thesis using PList search_any_Nil_filter[OF True]
      by (simp add: check_pattern_with_version_def ebind_def)
  next
    case False
    then have "ps \<noteq> []" by auto
    then show ?thesis using PList False
      by (simp add: check_pattern_with_version_def search_any_skips)
  qed
next
  case (PDict es)
  show ?thesis
  proof (cases "filter (\<lambda>e. \<not> re_error_on rx text (fst e)) es = []")
    case True
    then show ?thesis using PDict search_versioned_Nil_filter[OF True]
      by (simp add: check_pattern_with_version_def)
  next
    case False
    then have "es \<noteq> []" by auto
    then show ?thesis using PDict False
      by (simp add: check_pattern_with_version_def search_versioned_skips)
  qed
qed

text \<open>
  For the patterns on which \<open>re.search\<close> raises \<open>re.error\<close> the source does what is
  specified: both checks give the result they give on the fingerprint value without
  those patterns, so the remaining patterns still decide; and an empty text and an
  empty value never match.
\<close>

lemma re_error_patterns_skipped:
  "check_pattern rx tx spec = check_pattern rx tx (without_re_errors rx tx spec) \<and>
   check_pattern_with_version rx tx spec
     = check_pattern_with_version rx tx (without_re_errors rx tx spec) \<and>
   check_pattern rx [] spec = Inr False \<and>
   check_pattern_with_version rx [] spec = Inr (False, None) \<and>
   (spec_empty spec \<longrightarrow>
      check_pattern rx tx spec = Inr False \<and>
      check_pattern_with_version rx tx spec = Inr (False, None))"
proof (intro conjI impI)
  show "check_pattern rx tx spec = check_pattern rx tx (without_re_errors rx tx spec)"
    by (rule check_pattern_skips[symmetric])
  show "check_pattern_with_version rx tx spec
     = check_pattern_with_version rx tx (without_re_errors rx tx spec)"
    by (rule check_pattern_with_version_skips[symmetric])
  show "check_pattern rx [] spec = Inr False"
    by (simp add: check_pattern_def)
  show "check_pattern_with_version rx [] spec = Inr (False, None)"
    by (simp add: check_pattern_with_version_def)
  show "check_pattern rx tx spec = Inr False" if "spec_empty spec"
    using that by (simp add: check_pattern_def)
  show "check_pattern_with_version rx tx spec = Inr (False, None)" if "spec_empty spec"
    using that by (simp add: check_pattern_with_version_def)
qed

text \<open>
  When \<open>re.search\<close> raises nothing but \<open>re.error\<close>, every check returns, and so does
  \<open>analyze\<close>.
\<close>

lemma search_any_returns:
  "\<forall>p e. rx p text \<noteq> Raises e \<Longrightarrow> \<exists>found. search_any rx text ps = Inr found"
  by (induction ps) (auto split: re_result.splits)

lemma search_versioned_returns:
  "\<forall>p e. rx p text \<noteq> Raises e \<Longrightarrow> \<exists>r. search_versioned rx text es = Inr r"
  by (induction es) (auto split: re_result.splits)

lemma check_pattern_returns:
  assumes "\<forall>p tx e. rx p tx \<noteq> Raises e"
  shows "\<exists>found. check_pattern rx text spec = Inr found"
proof (cases "text = [] \<or> spec_empty spec")
  case True
  then show ?thesis by (auto simp: check_pattern_def)
next
  case False
  have "\<exists>found. search_any rx text ps = Inr found" for ps
    using assms by (intro search_any_returns) simp
  then show ?thesis using False by (simp add: check_pattern_def)
qed

lemma check_pattern_with_version_returns:
  assumes "\<forall>p tx e. rx p tx \<noteq> Raises e"
  shows "\<exists>r. check_pattern_with_version rx text spec = Inr r"
proof (cases "text = [] \<or> spec_empty spec")
  case True
  then show ?thesis by (auto simp: check_pattern_with_version_def)
next
  case False
  have a: "\<exists>found. search_any rx text ps = Inr found" for ps
    using assms by (intro search_any_returns) simp
  have v: "\<exists>r. search_versioned rx text es = Inr r" for es
    using assms by (intro search_versioned_returns) simp
  show ?thesis
  proof (cases spec)
    case (PStr s)
    obtain found where f: "search_any rx text [s] = Inr found" using a by blast
    have "check_pattern_with_version rx text spec
            = ebind (search_any rx text [s]) (\<lambda>found. Inr (found, None))"
      using PStr False by (simp add: check_pattern_with_version_def)
    then show ?thesis unfolding f by (simp add: ebind_def)
  next
    case (PList ps)
    obtain found where f: "search_any rx text ps = Inr found" using a by blast
    have "check_pattern_with_version rx text spec
            = ebind (search_any rx text ps) (\<lambda>found. Inr (found, None))"
      using PList False by (simp add: check_pattern_with_version_def)
    then show ?thesis unfolding f by (simp add: ebind_def)
  next
    case (PDict es)
    then show ?thesis using v False by (simp add: check_pattern_with_version_def)
  qed
qed

lemma returns_iff: "\<not> isl x \<longleftrightarrow> (\<exists>y. x = Inr y)"
  by (cases x) simp_all

lemma plain_hit_returns:
  assumes "\<forall>p tx e. rx p tx \<noteq> Raises e"
  shows "\<not> isl (plain_hit rx label text spec)"
proof -
  obtain found where "check_pattern rx text spec = Inr found"
    using check_pattern_returns[OF assms] by blast
  then show ?thesis by (simp add: plain_hit_def ebind_def)
qed

lemma versioned_hit_returns:
  assumes "\<forall>p tx e. rx p tx \<noteq> Raises e"
  shows "\<not> isl (versioned_hit rx label text spec)"
proof -
  obtain r where "check_pattern_with_version rx text spec = Inr r"
    using check_pattern_with_version_returns[OF assms] by blast
  then show ?thesis by (cases r) (simp add: versioned_hit_def ebind_def)
qed

lemma all_hits_returns:
  "\<forall>x \<in> set hs. \<not> isl x \<Longrightarrow> \<not> isl (all_hits hs)"
proof (induction hs)
  case Nil
  then show ?case by simp
next
  case (Cons x hs)
  obtain a where a: "x = Inr a" using Cons.prems by (auto simp: returns_iff)
  obtain b where b: "all_hits hs = Inr b" using Cons by (auto simp: returns_iff)
  show ?case using a b by (simp add: ebind_def)
qed

lemma tech_hits_returns:
  assumes "\<forall>p tx e. rx p tx \<noteq> Raises e"
  shows "\<exists>h. tech_hits rx sp s t = Inr h"
proof -
  note ph = plain_hit_returns[OF assms]
  note vh = versioned_hit_returns[OF assms]
  have c1: "\<not> isl (check_url rx s t)"
    using ph by (simp add: check_url_def split: option.splits)
  have c2: "\<not> isl (check_html rx s t)"
    using vh by (simp add: check_html_def split: option.splits)
  have c3: "\<not> isl (check_html_scripts rx sp t)"
    unfolding check_html_scripts_def
    by (auto split: option.splits intro!: all_hits_returns simp: vh)
  have c4: "\<not> isl (check_scripts rx scripts t)" for scripts
    unfolding check_scripts_def
    by (auto split: option.splits intro!: all_hits_returns simp: vh)
  have c5: "\<not> isl (check_headers rx headers t)" for headers
    unfolding check_headers_def
    by (auto split: option.splits if_splits intro!: all_hits_returns simp: vh)
  have c6: "\<not> isl (check_cookies rx cookies t)" for cookies
    unfolding check_cookies_def
    by (auto split: option.splits if_splits intro!: all_hits_returns simp: ph)
  have c7: "\<not> isl (check_meta rx meta t)" for meta
    unfolding check_meta_def
    by (auto split: option.splits if_splits intro!: all_hits_returns simp: vh)
  have inner: "\<not> isl (all_hits (map (\<lambda>record_value. plain_hit rx label record_value p) vs))"
    for label p vs
    by (rule all_hits_returns) (simp add: ph)
  have c8: "\<not> isl (check_dns rx dns t)" for dns
    unfolding check_dns_def
    by (auto split: option.splits if_splits intro!: all_hits_returns simp: inner)
  have c9: "\<not> isl (check_certIssuer rx s t)"
    using ph by (simp add: check_certIssuer_def split: option.splits)
  have "\<not> isl (tech_hits rx sp s t)"
    unfolding tech_hits_def
    by (rule all_hits_returns) (use c1 c2 c3 c4 c5 c6 c7 c8 c9 in simp)
  then show ?thesis by (simp add: returns_iff)
qed

lemma detect_step_returns:
  assumes "\<forall>p tx e. re_search W p tx \<noteq> Raises e"
  shows "\<exists>det'. detect_step W sp s det entry = Inr det'"
proof (cases "snd entry")
  case TechOther
  then show ?thesis by (simp add: detect_step_def)
next
  case (TechDict t)
  obtain h where "tech_hits (re_search W) sp s t = Inr h"
    using tech_hits_returns[OF assms] by blast
  then show ?thesis using TechDict by (simp add: detect_step_def ebind_def)
qed

lemma detect_all_returns:
  assumes "\<forall>p tx e. re_search W p tx \<noteq> Raises e"
  shows "\<exists>det'. detect_all W sp s det techs = (None, det')"
proof (induction techs arbitrary: det)
  case Nil
  then show ?case by simp
next
  case (Cons entry techs)
  obtain det1 where "detect_step W sp s det entry = Inr det1"
    using detect_step_returns[OF assms] by blast
  then show ?case using Cons[of det1] by simp
qed

lemma analyze_returns:
  assumes "\<forall>p tx e. re_search W p tx \<noteq> Raises e"
  shows "\<exists>res. fst (analyze W eng s) = Inr res"
proof -
  obtain det where "run_detection W eng s = (None, det)"
    unfolding run_detection_def using detect_all_returns[OF assms] by blast
  then show ?thesis by (simp add: analyze_def)
qed

text \<open>
  C7: a pattern with a repetition count beyond the maximum of the library does not
  compile, and \<open>re.search\<close> raises \<open>OverflowError\<close> on it, which is not a
  \<open>re.error\<close>. The source does not skip it: the check raises, although the pattern
  \<open>example\<close> that follows matches the text, and so does \<open>analyze\<close>, although
  without that fingerprint it detects nginx as well. The loop stops at the fingerprint,
  with ExampleCMS alone in \<open>self.detected\<close>.
\<close>

theorem overflow_error_not_skipped:
  "re_search example_world (strip_wappalyzer_pattern ''a{4294967296}'') ''https://example.org/''
     = Raises OverflowError \<and>
   check_pattern (re_search example_world) ''https://example.org/''
     (PList [''a{4294967296}'', ''example'']) = Inl OverflowError \<and>
   check_pattern (re_search example_world) ''https://example.org/'' (PList [''example''])
     = Inr True \<and>
   check_pattern_with_version (re_search example_world) ''https://example.org/''
     (PDict [(''a{4294967296}'', []), (''example'', [])]) = Inl OverflowError \<and>
   check_pattern_with_version (re_search example_world) ''https://example.org/''
     (PDict [(''example'', [])]) = Inr (True, None) \<and>
   fst (analyze example_world overflow_engine example_signals) = Inl OverflowError \<and>
   map fst (detected (snd (analyze example_world overflow_engine example_signals)))
     = [''ExampleCMS''] \<and>
   map_sum id (map name)
     (fst (analyze example_world
        (overflow_engine\<lparr>technologies :=
           [(''ExampleCMS'', TechDict example_cms), (''nginx'', TechDict nginx_tech)]\<rparr>)
        example_signals))
     = Inr [''ExampleCMS'', ''nginx'']"
  by code_simp

subsection \<open>Group names\<close>

lemma group_names_alt:
  "group_names grps ids = map (\<lambda>g. the (group_display grps g)) (filter (\<lambda>g. group_display grps g \<noteq> None) ids)"
  by (induction ids) (auto simp: group_names_def split: option.splits)

lemma groups_of_result:
  assumes "fst (analyze W eng s) = Inr res"
    and "d \<in> set res"
  shows "groups d = group_names (groups_tab eng) (int_set_order W (referenced_group_ids eng (name d)))"
proof -
  obtain det where "res = sort_reverse confidence (map (format_one W eng) det)"
    using analyze_returned[OF assms(1)] by blast
  then obtain item where "d = format_one W eng item"
    using assms(2) by (auto simp: set_sort_reverse)
  then show ?thesis
    by (simp add: format_one_def referenced_group_ids_def)
qed

text \<open>
  C8, amended: the group ids of a result are deduplicated. Its group names are the
  names of the group ids its resolved categories refer to, one name for each such id
  that resolves in the groups table, however many categories share the id; the list has
  no repeated name when those ids have different display names. The iteration order of
  the set of ids is any order without repetition.
  This holds for every result of every call that returns a list.
\<close>

theorem group_ids_deduplicated:
  assumes order: "\<forall>xs. distinct (int_set_order W xs) \<and> set (int_set_order W xs) = set xs"
    and ret: "fst (analyze W eng s) = Inr res"
    and res: "d \<in> set res"
  shows "set (groups d) =
           {n. \<exists>g \<in> set (referenced_group_ids eng (name d)). group_display (groups_tab eng) g = Some n} \<and>
         length (groups d) =
           card {g \<in> set (referenced_group_ids eng (name d)). group_display (groups_tab eng) g \<noteq> None} \<and>
         (inj_on (group_display (groups_tab eng))
             {g \<in> set (referenced_group_ids eng (name d)). group_display (groups_tab eng) g \<noteq> None}
          \<longrightarrow> distinct (groups d))"
proof -
  let ?ids = "referenced_group_ids eng (name d)"
  let ?disp = "group_display (groups_tab eng)"
  let ?it = "int_set_order W ?ids"
  let ?ok = "filter (\<lambda>g. ?disp g \<noteq> None) ?it"
  have dist: "distinct ?it" and st: "set ?it = set ?ids"
    using order by simp_all
  have g: "groups d = map (\<lambda>g. the (?disp g)) ?ok"
    using groups_of_result[OF ret res] by (simp add: group_names_alt)
  have set_ok: "set ?ok = {g \<in> set ?ids. ?disp g \<noteq> None}"
    using st by auto
  have dist_ok: "distinct ?ok"
    using dist by simp
  have one: "set (groups d) = {n. \<exists>g \<in> set ?ids. ?disp g = Some n}"
  proof -
    have "set (groups d) = (\<lambda>g. the (?disp g)) ` {g \<in> set ?ids. ?disp g \<noteq> None}"
      unfolding g set_map set_ok ..
    also have "\<dots> = {n. \<exists>g \<in> set ?ids. ?disp g = Some n}"
      by (auto simp: image_iff) force
    finally show ?thesis .
  qed
  have two: "length (groups d) = card {g \<in> set ?ids. ?disp g \<noteq> None}"
  proof -
    have "length (groups d) = length ?ok" unfolding g by simp
    also have "\<dots> = card (set ?ok)" using distinct_card[OF dist_ok] by (rule sym)
    finally show ?thesis unfolding set_ok .
  qed
  have three: "distinct (groups d)"
    if inj: "inj_on ?disp {g \<in> set ?ids. ?disp g \<noteq> None}"
  proof -
    have "inj_on (\<lambda>g. the (?disp g)) (set ?ok)"
      unfolding set_ok
    proof (rule inj_onI)
      fix x y
      assume x: "x \<in> {g \<in> set ?ids. ?disp g \<noteq> None}"
        and y: "y \<in> {g \<in> set ?ids. ?disp g \<noteq> None}"
        and eq: "the (?disp x) = the (?disp y)"
      have "?disp x = ?disp y" using x y eq by auto
      then show "x = y" using inj x y by (auto dest: inj_onD)
    qed
    then show ?thesis unfolding g using dist_ok by (simp add: distinct_map)
  qed
  show ?thesis using one two three by blast
qed

text \<open>
  C8, as stated, fails: the source deduplicates group ids, not names. Two ids with the
  same display name put that name into the list twice.
\<close>

theorem same_display_name_twice:
  "map_sum id (map (\<lambda>d. (name d, groups d)))
     (fst (analyze example_world (example_engine\<lparr>groups_tab := same_name_groups\<rparr>)
        (example_signals\<lparr>sig_url := [], sig_html := [], sig_scripts := None\<rparr>)))
     = Inr [(''nginx'', [''Content'', ''Content''])]"
  by code_simp

theorem group_ids_deduplicated_witness:
  "(\<forall>xs. distinct (int_set_order example_world xs) \<and> set (int_set_order example_world xs) = set xs) \<and>
   fst (analyze example_world example_engine example_signals) = Inr example_result \<and>
   nginx_detection \<in> set example_result \<and>
   referenced_group_ids example_engine (name nginx_detection) = [11, 10] \<and>
   inj_on (group_display (groups_tab example_engine))
     {g \<in> set (referenced_group_ids example_engine (name nginx_detection)).
        group_display (groups_tab example_engine) g \<noteq> None} \<and>
   length (groups nginx_detection) = 2 \<and>
   distinct (groups nginx_detection)"
proof -
  have order: "\<forall>xs. distinct (int_set_order example_world xs) \<and> set (int_set_order example_world xs) = set xs"
    by (simp add: example_world_def)
  have ret: "fst (analyze example_world example_engine example_signals) = Inr example_result"
    by code_simp
  have res: "nginx_detection \<in> set example_result"
    by code_simp
  have ids: "referenced_group_ids example_engine (name nginx_detection) = [11, 10]"
    by code_simp
  have g10: "group_display (groups_tab example_engine) 10 = Some ''Content''"
    by code_simp
  have g11: "group_display (groups_tab example_engine) 11 = Some ''Servers''"
    by code_simp
  have inj: "inj_on (group_display (groups_tab example_engine))
     {g \<in> set (referenced_group_ids example_engine (name nginx_detection)).
        group_display (groups_tab example_engine) g \<noteq> None}"
    unfolding ids by (auto simp: inj_on_def g10 g11)
  have len: "length (groups nginx_detection) = 2"
    by (simp add: nginx_detection_def)
  show ?thesis
    using order ret res ids inj len group_ids_deduplicated[OF order ret res] by blast
qed

subsection \<open>The version template\<close>

lemma small_cases:
  "1 \<le> k \<Longrightarrow> k \<le> 9 \<Longrightarrow>
   k = 1 \<or> k = 2 \<or> k = 3 \<or> k = 4 \<or> k = 5 \<or> k = 6 \<or> k = 7 \<or> k = 8 \<or> k = (9::nat)"
  by arith

lemma digit_char_not_backslash: "1 \<le> k \<Longrightarrow> k \<le> 9 \<Longrightarrow> digit_char k \<noteq> backslash"
  by (drule (1) small_cases) (auto simp: digit_char_def backslash_def)

lemma digit_value_digit_char: "1 \<le> k \<Longrightarrow> k \<le> 9 \<Longrightarrow> digit_value (digit_char k) = Some k"
  by (drule (1) small_cases) (auto simp: digit_char_def digit_value_def)

lemma digit_value_Some: "digit_value d = Some j \<Longrightarrow> d = digit_char j \<and> 1 \<le> j \<and> j \<le> 9"
  by (auto simp: digit_value_def digit_char_def split: if_splits)

lemma str_nat_digit: "k \<le> 9 \<Longrightarrow> str_nat k = [digit_char k]"
  by simp


lemma py_replace_Nil: "py_replace (backslash # [dk]) new [] = []"
  by simp

lemma py_replace_other:
  "c \<noteq> backslash \<Longrightarrow> py_replace (backslash # [dk]) new (c # s) = c # py_replace (backslash # [dk]) new s"
  by simp

lemma py_replace_token:
  "py_replace (backslash # [dk]) new (backslash # dk # s) = new @ py_replace (backslash # [dk]) new s"
  by simp

lemma py_replace_not_token:
  "e \<noteq> dk \<Longrightarrow>
   py_replace (backslash # [dk]) new (backslash # e # s)
     = backslash # py_replace (backslash # [dk]) new (e # s)"
  by simp

lemma py_replace_single: "py_replace (backslash # [dk]) new [c] = [c]"
  by simp

lemma py_replace_prefix:
  "backslash \<notin> set p \<Longrightarrow>
   py_replace (backslash # [dk]) new (p @ s) = p @ py_replace (backslash # [dk]) new s"
  by (induction p) (auto simp del: py_replace.simps simp add: py_replace_other)

lemma substitute_other:
  "c \<noteq> backslash \<Longrightarrow> substitute_tokens gs (c # cs) = c # substitute_tokens gs cs"
  by (cases cs) simp_all

lemma no_double_backslash_tl: "no_double_backslash (c # cs) \<Longrightarrow> no_double_backslash cs"
  by (cases cs) simp_all

lemma token_group_in_set: "token_group gs d = Some g \<Longrightarrow> Some g \<in> set gs \<and> g \<noteq> []"
proof -
  assume a: "token_group gs d = Some g"
  then obtain j where j: "digit_value d = Some j" "j \<le> length gs" "gs ! (j - 1) = Some g" "g \<noteq> []"
    by (auto simp: token_group_def split: option.splits if_splits)
  have "1 \<le> j" using digit_value_Some[OF j(1)] by simp
  then have "j - 1 < length gs" using j(2) by simp
  then have "gs ! (j - 1) \<in> set gs" by (rule nth_mem)
  then show ?thesis using j(3,4) by simp
qed

lemma token_group_snoc_unset:
  assumes "g = None \<or> g = Some []"
  shows "token_group (done @ [g]) d = token_group done d"
proof (cases "digit_value d")
  case None
  then show ?thesis by (simp add: token_group_def)
next
  case (Some j)
  have j1: "1 \<le> j" using digit_value_Some[OF Some] by simp
  show ?thesis
  proof (cases "j \<le> length done")
    case True
    then have "j - 1 < length done" using j1 by arith
    then have "(done @ [g]) ! (j - 1) = done ! (j - 1)"
      by (simp add: nth_append)
    then show ?thesis using Some True by (simp add: token_group_def)
  next
    case False
    show ?thesis
    proof (cases "j = Suc (length done)")
      case True
      then have "(done @ [g]) ! (j - 1) = g" by simp
      then show ?thesis using Some True assms by (auto simp: token_group_def)
    next
      case F2: False
      then show ?thesis using Some False by (simp add: token_group_def)
    qed
  qed
qed

lemma token_group_snoc_set:
  assumes "t \<noteq> []" and "length done < 9"
  shows "token_group (done @ [Some t]) d =
           (if d = digit_char (Suc (length done)) then Some t else token_group done d)"
proof (cases "digit_value d")
  case None
  have "d \<noteq> digit_char (Suc (length done))"
    using None digit_value_digit_char[of "Suc (length done)"] assms(2) by auto
  then show ?thesis using None by (simp add: token_group_def)
next
  case (Some j)
  have j: "d = digit_char j" "1 \<le> j" "j \<le> 9" using digit_value_Some[OF Some] by simp_all
  show ?thesis
  proof (cases "j = Suc (length done)")
    case True
    then have "(done @ [Some t]) ! (j - 1) = Some t" by simp
    then show ?thesis using Some True assms(1) j(1) by (simp add: token_group_def)
  next
    case False
    have ne: "d \<noteq> digit_char (Suc (length done))"
    proof
      assume "d = digit_char (Suc (length done))"
      then have "digit_value d = Some (Suc (length done))"
        using digit_value_digit_char[of "Suc (length done)"] assms(2) by simp
      then show False using Some False by simp
    qed
    show ?thesis
    proof (cases "j \<le> length done")
      case True
      then have "j - 1 < length done" using j(2) by arith
      then have "(done @ [Some t]) ! (j - 1) = done ! (j - 1)"
        by (simp add: nth_append)
      then show ?thesis using Some True ne by (simp add: token_group_def)
    next
      case F2: False
      then show ?thesis using Some False ne by (simp add: token_group_def)
    qed
  qed
qed

lemma token_group_next_unset:
  "length done < 9 \<Longrightarrow> token_group done (digit_char (Suc (length done))) = None"
  using digit_value_digit_char[of "Suc (length done)"] by (simp add: token_group_def)


lemma token_group_Nil: "token_group [] d = None"
proof (cases "digit_value d")
  case None
  then show ?thesis by (simp add: token_group_def)
next
  case (Some j)
  then have "1 \<le> j" using digit_value_Some by blast
  then show ?thesis using Some by (simp add: token_group_def)
qed

lemma substitute_Nil_groups: "substitute_tokens [] v = v"
  by (induction "[] :: string option list" v rule: substitute_tokens.induct)
     (simp_all add: token_group_Nil)

lemma substitute_snoc_unset:
  assumes "g = None \<or> g = Some []"
  shows "substitute_tokens (done @ [g]) v = substitute_tokens done v"
  by (induction "done" v rule: substitute_tokens.induct)
     (auto simp: token_group_snoc_unset[OF assms] split: option.splits)

lemma replace_step:
  assumes t: "t \<noteq> []" "backslash \<notin> set t"
    and len: "length done < 9"
    and free: "\<forall>g. Some g \<in> set done \<longrightarrow> backslash \<notin> set g"
  shows "no_double_backslash v \<Longrightarrow>
         py_replace (backslash # [digit_char (Suc (length done))]) t (substitute_tokens done v)
           = substitute_tokens (done @ [Some t]) v"
  using len free
proof (induction "done" v rule: substitute_tokens.induct)
  case (1 gs)
  show ?case by simp
next
  case (2 gs c)
  show ?case by (simp del: py_replace.simps add: py_replace_single)
next
  case (3 gs c d cs)
  let ?dk = "digit_char (Suc (length gs))"
  let ?old = "backslash # [?dk]"
  let ?new = "substitute_tokens (gs @ [Some t])"
  have len: "length gs < 9" using "3.prems" by simp
  have free: "\<forall>g. Some g \<in> set gs \<longrightarrow> backslash \<notin> set g" using "3.prems" by simp
  have ndb: "no_double_backslash (d # cs)" using "3.prems"(1) by simp
  have ndb': "no_double_backslash cs" using ndb by (rule no_double_backslash_tl)
  have tg: "token_group (gs @ [Some t]) x = (if x = ?dk then Some t else token_group gs x)" for x
    using token_group_snoc_set[OF t(1) len] by simp
  show ?case
  proof (cases "c = backslash")
    case False
    have ih: "py_replace ?old t (substitute_tokens gs (d # cs)) = ?new (d # cs)"
      using "3.IH"(3)[OF False ndb len free] .
    have "py_replace ?old t (substitute_tokens gs (c # d # cs))
          = py_replace ?old t (c # substitute_tokens gs (d # cs))"
      using False by simp
    also have "\<dots> = c # py_replace ?old t (substitute_tokens gs (d # cs))"
      using False by (rule py_replace_other)
    also have "\<dots> = c # ?new (d # cs)" using ih by simp
    also have "\<dots> = ?new (c # d # cs)" using False by simp
    finally show ?thesis .
  next
    case True
    have d_nb: "d \<noteq> backslash" using "3.prems"(1) True by simp
    show ?thesis
    proof (cases "token_group gs d")
      case (Some g')
      have g'_free: "backslash \<notin> set g'"
        using token_group_in_set[OF Some] free by blast
      have d_ne: "d \<noteq> ?dk"
        using Some token_group_next_unset[OF len] by auto
      have ih: "py_replace ?old t (substitute_tokens gs cs) = ?new cs"
        using "3.IH"(2)[OF True Some ndb' len free] .
      have "py_replace ?old t (substitute_tokens gs (c # d # cs))
            = py_replace ?old t (g' @ substitute_tokens gs cs)"
        using True Some by simp
      also have "\<dots> = g' @ py_replace ?old t (substitute_tokens gs cs)"
        using g'_free by (rule py_replace_prefix)
      also have "\<dots> = g' @ ?new cs" using ih by simp
      also have "\<dots> = ?new (c # d # cs)"
        using True Some d_ne by (simp add: tg)
      finally show ?thesis .
    next
      case None
      have ih0: "py_replace ?old t (substitute_tokens gs (d # cs)) = ?new (d # cs)"
        using "3.IH"(1)[OF True None ndb len free] .
      have sub_d: "substitute_tokens gs (d # cs) = d # substitute_tokens gs cs"
        using d_nb by (rule substitute_other)
      have new_d: "?new (d # cs) = d # ?new cs"
        using d_nb by (rule substitute_other)
      have "py_replace ?old t (d # substitute_tokens gs cs)
            = d # py_replace ?old t (substitute_tokens gs cs)"
        using d_nb by (rule py_replace_other)
      then have ih: "py_replace ?old t (substitute_tokens gs cs) = ?new cs"
        using ih0 sub_d new_d by simp
      have lhs: "substitute_tokens gs (c # d # cs) = backslash # d # substitute_tokens gs cs"
        using True None sub_d by simp
      show ?thesis
      proof (cases "d = ?dk")
        case dk: True
        have "py_replace ?old t (backslash # ?dk # substitute_tokens gs cs)
              = t @ py_replace ?old t (substitute_tokens gs cs)"
          by (rule py_replace_token)
        then have "py_replace ?old t (substitute_tokens gs (c # d # cs)) = t @ ?new cs"
          using lhs dk ih by simp
        moreover have "?new (c # d # cs) = t @ ?new cs"
          using True dk by (simp add: tg)
        ultimately show ?thesis by simp
      next
        case ndk: False
        have "py_replace ?old t (backslash # d # substitute_tokens gs cs)
              = backslash # py_replace ?old t (d # substitute_tokens gs cs)"
          using ndk by (rule py_replace_not_token)
        also have "\<dots> = backslash # d # py_replace ?old t (substitute_tokens gs cs)"
          using d_nb py_replace_other[OF d_nb] by simp
        also have "\<dots> = backslash # d # ?new cs" using ih by simp
        finally have "py_replace ?old t (substitute_tokens gs (c # d # cs)) = backslash # d # ?new cs"
          using lhs by simp
        moreover have "?new (c # d # cs) = backslash # d # ?new cs"
          using True ndk None new_d by (simp add: tg)
        ultimately show ?thesis by simp
      qed
    qed
  qed
qed

lemma fill_version_substitutes:
  assumes "length (done @ gs) \<le> 9"
    and "\<forall>g. Some g \<in> set (done @ gs) \<longrightarrow> backslash \<notin> set g"
    and "no_double_backslash v"
  shows "fill_version (Suc (length done)) gs (substitute_tokens done v)
           = substitute_tokens (done @ gs) v"
  using assms
proof (induction gs arbitrary: "done")
  case Nil
  then show ?case by simp
next
  case (Cons g gs)
  have len: "length done < 9" using Cons.prems(1) by simp
  have free: "\<forall>x. Some x \<in> set done \<longrightarrow> backslash \<notin> set x" using Cons.prems(2) by simp
  have tok: "backslash # str_nat (Suc (length done)) = backslash # [digit_char (Suc (length done))]"
    using len by simp
  have step: "(case g of
                 None \<Rightarrow> substitute_tokens done v
               | Some x \<Rightarrow> if x = [] then substitute_tokens done v
                           else py_replace (backslash # str_nat (Suc (length done))) x
                                  (substitute_tokens done v))
              = substitute_tokens (done @ [g]) v"
  proof (cases "g = None \<or> g = Some []")
    case True
    then show ?thesis using substitute_snoc_unset[OF True, of "done" v] by auto
  next
    case False
    then obtain t where t: "g = Some t" "t \<noteq> []" by (cases g) auto
    have tf: "backslash \<notin> set t" using Cons.prems(2) t(1) by simp
    show ?thesis
      using replace_step[OF t(2) tf len free Cons.prems(3)] t unfolding tok by simp
  qed
  have ih: "fill_version (Suc (length (done @ [g]))) gs (substitute_tokens (done @ [g]) v)
            = substitute_tokens ((done @ [g]) @ gs) v"
    using Cons.IH[of "done @ [g]"] Cons.prems by simp
  show ?case
    using step ih by (simp del: str_nat.simps)
qed

lemma fill_version_is_substitution:
  assumes "length gs \<le> 9"
    and "\<forall>g. Some g \<in> set gs \<longrightarrow> backslash \<notin> set g"
    and "no_double_backslash v"
  shows "fill_version 1 gs v = substitute_tokens gs v"
  using fill_version_substitutes[of "[]" gs v] assms by (simp add: substitute_Nil_groups)

lemma search_versioned_skip:
  assumes "\<forall>e \<in> set pre. rx (strip_wappalyzer_pattern (fst e)) tx = NoMatch \<or>
                         rx (strip_wappalyzer_pattern (fst e)) tx = ReError"
  shows "search_versioned rx tx (pre @ rest) = search_versioned rx tx rest"
  using assms
proof (induction pre)
  case Nil
  then show ?case by simp
next
  case (Cons e pre)
  obtain q w where e: "e = (q, w)" by (cases e)
  have "rx (strip_wappalyzer_pattern q) tx = NoMatch \<or> rx (strip_wappalyzer_pattern q) tx = ReError"
    using Cons.prems e by simp
  then have "search_versioned rx tx ((q, w) # pre @ rest) = search_versioned rx tx (pre @ rest)"
    by auto
  then show ?case using Cons e by simp
qed

lemma first_match_decides:
  assumes "tx \<noteq> []"
    and "\<forall>e \<in> set pre. rx (strip_wappalyzer_pattern (fst e)) tx = NoMatch \<or>
                         rx (strip_wappalyzer_pattern (fst e)) tx = ReError"
    and "rx (strip_wappalyzer_pattern p) tx = Match gs"
  shows "check_pattern_with_version rx tx (PDict (pre @ (p, v) # post))
         = Inr (True, if gs = [] \<or> v = [] then None else Some (fill_version 1 gs v))"
proof -
  have "check_pattern_with_version rx tx (PDict (pre @ (p, v) # post))
        = search_versioned rx tx (pre @ (p, v) # post)"
    using assms(1) by (simp add: check_pattern_with_version_def)
  also have "\<dots> = search_versioned rx tx ((p, v) # post)"
    using assms(2) by (rule search_versioned_skip)
  also have "\<dots> = Inr (True, if gs = [] \<or> v = [] then None else Some (fill_version 1 gs v))"
    using assms(3) by simp
  finally show ?thesis .
qed

text \<open>
  C2, as stated, fails in two ways. On the empty text the source answers
  \<open>(False, None)\<close> without trying any entry, although the pattern \<open>a*\<close> matches it.
  And the groups are substituted one after the other, each replacement working on the
  string the previous ones produced, for every group number: a group text that holds a
  token is substituted again (the source gives \<open>9\<close>, the specified version is
  backslash-2); two adjacent backslashes let a token arise from a replacement (the
  source gives \<open>Zx\<close>, the specified version is backslash-2x); and with ten groups the
  three characters backslash-1-0 are replaced by the tenth group (the source gives
  \<open>j\<close>, the specified version leaves the token of the unset first group and the
  \<open>0\<close> in place).
\<close>

theorem empty_text_and_sequential_replacement:
  "template_engine (strip_wappalyzer_pattern ''a*'') [] = Match [] \<and>
   check_pattern_with_version template_engine [] (PDict [(''a*'', [])]) = Inr (False, None) \<and>
   check_pattern_with_version template_engine rescan_text
     (PDict [(''v=([^ ]+) w=([^ ]+)'', [backslash, CHR ''1''])]) = Inr (True, Some ''9'') \<and>
   substitute_tokens [Some [backslash, CHR ''2''], Some ''9''] [backslash, CHR ''1'']
     = [backslash, CHR ''2''] \<and>
   check_pattern_with_version template_engine ''2x-Z''
     (PDict [(''([0-9a-z]+)-([a-z]+)'', [backslash, backslash, CHR ''1''])])
     = Inr (True, Some ''Zx'') \<and>
   substitute_tokens [Some ''2x'', Some ''Z''] [backslash, backslash, CHR ''1'']
     = [backslash, CHR ''2'', CHR ''x''] \<and>
   check_pattern_with_version template_engine ''bcdefghij''
     (PDict [(''(a)?(b)(c)(d)(e)(f)(g)(h)(i)(j)'', [backslash, CHR ''1'', CHR ''0''])])
     = Inr (True, Some ''j'') \<and>
   substitute_tokens ten_groups [backslash, CHR ''1'', CHR ''0'']
     = [backslash, CHR ''1'', CHR ''0'']"
  by code_simp

text \<open>
  C2, amended: on the empty text the result is \<open>(False, None)\<close>, whatever the
  fingerprint value. On a non-empty text the entries of a mapping are tried in their
  order; entries whose pattern does not match, or on which \<open>re.search\<close> raises
  \<open>re.error\<close>, are passed over, and the first entry that matches decides the result,
  whatever entries follow it. With no group or an empty template the result is
  \<open>(True, None)\<close>; otherwise it is \<open>(True, version)\<close> for the version that the
  replacement loop of the source makes of the template. With at most nine groups, group
  texts without a backslash and a template without two adjacent backslashes, that
  version is the template with every token of a non-empty group replaced by the group's
  text and every other token left in place.
\<close>

theorem first_matching_entry_decides:
  "check_pattern_with_version rx [] spec = Inr (False, None) \<and>
   (tx \<noteq> [] \<and>
    (\<forall>e \<in> set pre. rx (strip_wappalyzer_pattern (fst e)) tx = NoMatch \<or>
                    rx (strip_wappalyzer_pattern (fst e)) tx = ReError) \<and>
    rx (strip_wappalyzer_pattern p) tx = Match gs \<longrightarrow>
      check_pattern_with_version rx tx (PDict (pre @ (p, v) # post))
        = Inr (True, if gs = [] \<or> v = [] then None else Some (fill_version 1 gs v)) \<and>
      (length gs \<le> 9 \<and> (\<forall>g. Some g \<in> set gs \<longrightarrow> backslash \<notin> set g) \<and>
       no_double_backslash v \<longrightarrow>
         check_pattern_with_version rx tx (PDict (pre @ (p, v) # post))
           = Inr (True, if gs = [] \<or> v = [] then None else Some (substitute_tokens gs v))))"
proof (intro conjI impI)
  show "check_pattern_with_version rx [] spec = Inr (False, None)"
    by (simp add: check_pattern_with_version_def)
next
  assume a: "tx \<noteq> [] \<and>
    (\<forall>e \<in> set pre. rx (strip_wappalyzer_pattern (fst e)) tx = NoMatch \<or>
                    rx (strip_wappalyzer_pattern (fst e)) tx = ReError) \<and>
    rx (strip_wappalyzer_pattern p) tx = Match gs"
  show "check_pattern_with_version rx tx (PDict (pre @ (p, v) # post))
        = Inr (True, if gs = [] \<or> v = [] then None else Some (fill_version 1 gs v))"
    using a first_match_decides[of tx pre rx p gs v post] by blast
next
  assume a: "tx \<noteq> [] \<and>
    (\<forall>e \<in> set pre. rx (strip_wappalyzer_pattern (fst e)) tx = NoMatch \<or>
                    rx (strip_wappalyzer_pattern (fst e)) tx = ReError) \<and>
    rx (strip_wappalyzer_pattern p) tx = Match gs"
    and b: "length gs \<le> 9 \<and> (\<forall>g. Some g \<in> set gs \<longrightarrow> backslash \<notin> set g) \<and>
       no_double_backslash v"
  have "fill_version 1 gs v = substitute_tokens gs v"
    using b fill_version_is_substitution[of gs v] by blast
  then show "check_pattern_with_version rx tx (PDict (pre @ (p, v) # post))
        = Inr (True, if gs = [] \<or> v = [] then None else Some (substitute_tokens gs v))"
    using a first_match_decides[of tx pre rx p gs v post] by simp
qed

theorem first_matching_entry_decides_witness:
  "check_pattern_with_version (re_search example_world) [] (PDict [(''a*'', [])])
     = Inr (False, None) \<and>
   example_html \<noteq> [] \<and>
   re_search example_world (strip_wappalyzer_pattern ''WordPress ([0-9.]+)'') example_html
     = NoMatch \<and>
   re_search example_world (strip_wappalyzer_pattern ''ExampleCMS ([0-9.]+)'') example_html
     = Match [Some ''2.3''] \<and>
   re_search example_world (strip_wappalyzer_pattern ''a{4294967296}'') example_html
     = Raises OverflowError \<and>
   length [Some ''2.3''] \<le> 9 \<and>
   backslash \<notin> set ''2.3'' \<and>
   no_double_backslash [backslash, CHR ''1''] \<and>
   substitute_tokens [Some ''2.3''] [backslash, CHR ''1''] = ''2.3'' \<and>
   check_pattern_with_version (re_search example_world) example_html
     (PDict ([(''WordPress ([0-9.]+)'', [backslash, CHR ''1''])]
             @ (''ExampleCMS ([0-9.]+)'', [backslash, CHR ''1'']) # [(''a{4294967296}'', [])]))
     = Inr (True, Some ''2.3'')"
proof -
  have h1: "example_html \<noteq> []"
    by (simp add: example_html_def)
  have nm: "re_search example_world (strip_wappalyzer_pattern ''WordPress ([0-9.]+)'') example_html
            = NoMatch"
    by code_simp
  have h2: "\<forall>e \<in> set [(''WordPress ([0-9.]+)'', [backslash, CHR ''1''])].
      re_search example_world (strip_wappalyzer_pattern (fst e)) example_html = NoMatch \<or>
      re_search example_world (strip_wappalyzer_pattern (fst e)) example_html = ReError"
    using nm by simp
  have h3: "re_search example_world (strip_wappalyzer_pattern ''ExampleCMS ([0-9.]+)'') example_html
     = Match [Some ''2.3'']"
    by code_simp
  have ov: "re_search example_world (strip_wappalyzer_pattern ''a{4294967296}'') example_html
     = Raises OverflowError"
    by code_simp
  have h4: "length [Some ''2.3''] \<le> 9"
    by simp
  have h5: "\<forall>g. Some g \<in> set [Some ''2.3''] \<longrightarrow> backslash \<notin> set g"
    by (simp add: backslash_def)
  have h6: "no_double_backslash [backslash, CHR ''1'']"
    by (simp add: backslash_def)
  have v: "substitute_tokens [Some ''2.3''] [backslash, CHR ''1''] = ''2.3''"
    by code_simp
  note main = first_matching_entry_decides[where rx = "re_search example_world"
        and spec = "PDict [(''a*'', [])]" and tx = example_html
        and pre = "[(''WordPress ([0-9.]+)'', [backslash, CHR ''1''])]"
        and p = "''ExampleCMS ([0-9.]+)''" and gs = "[Some ''2.3'']"
        and v = "[backslash, CHR ''1'']" and post = "[(''a{4294967296}'', [])]"]
  have e: "check_pattern_with_version (re_search example_world) [] (PDict [(''a*'', [])])
     = Inr (False, None)"
    using main by blast
  have "check_pattern_with_version (re_search example_world) example_html
     (PDict ([(''WordPress ([0-9.]+)'', [backslash, CHR ''1''])]
             @ (''ExampleCMS ([0-9.]+)'', [backslash, CHR ''1'']) # [(''a{4294967296}'', [])]))
     = Inr (True, if [Some ''2.3''] = [] \<or> [backslash, CHR ''1''] = [] then None
                  else Some (substitute_tokens [Some ''2.3''] [backslash, CHR ''1'']))"
    using main h1 h2 h3 h4 h5 h6 by blast
  then have r: "check_pattern_with_version (re_search example_world) example_html
     (PDict ([(''WordPress ([0-9.]+)'', [backslash, CHR ''1''])]
             @ (''ExampleCMS ([0-9.]+)'', [backslash, CHR ''1'']) # [(''a{4294967296}'', [])]))
     = Inr (True, Some ''2.3'')"
    using v by simp
  have h5': "backslash \<notin> set ''2.3''"
    by (simp add: backslash_def)
  show ?thesis
    using e h1 nm h3 ov h4 h5' h6 v r by blast
qed

subsection \<open>Reading a capture\<close>

lemma har_entries_shapes:
  "har_entries (JObj obj) =
     (case map_of obj ''log'' of
        None \<Rightarrow> Inr (JArr [])
      | Some lg \<Rightarrow> py_get lg ''entries'' (JArr []))"
  by (simp add: har_entries_def ebind_def split: option.splits)

text \<open>
  \<open>parse_har_file\<close> returns the all-empty bundle when the file cannot be opened or is
  not JSON, when the capture is an object without a \<open>log\<close>, and when its \<open>log\<close> is
  an object whose \<open>entries\<close> are absent or false (an empty list, \<open>null\<close>).
\<close>

lemma unreadable_or_empty_capture:
  "(read_json W p = None \<longrightarrow> parse_har_file W p = Inr EMPTY_HAR_RESULT) \<and>
   (read_json W p = Some (JObj obj) \<and> map_of obj ''log'' = None
      \<longrightarrow> parse_har_file W p = Inr EMPTY_HAR_RESULT) \<and>
   (read_json W p = Some (JObj obj) \<and> map_of obj ''log'' = Some (JObj lg) \<and>
    (map_of lg ''entries'' = None \<or> (\<exists>es. map_of lg ''entries'' = Some es \<and> \<not> truthy es))
      \<longrightarrow> parse_har_file W p = Inr EMPTY_HAR_RESULT)"
proof (intro conjI impI)
  assume "read_json W p = None"
  then show "parse_har_file W p = Inr EMPTY_HAR_RESULT"
    by (simp add: parse_har_file_def)
next
  assume "read_json W p = Some (JObj obj) \<and> map_of obj ''log'' = None"
  then show "parse_har_file W p = Inr EMPTY_HAR_RESULT"
    by (simp add: parse_har_file_def har_entries_shapes ebind_def)
next
  assume a: "read_json W p = Some (JObj obj) \<and> map_of obj ''log'' = Some (JObj lg) \<and>
    (map_of lg ''entries'' = None \<or> (\<exists>es. map_of lg ''entries'' = Some es \<and> \<not> truthy es))"
  then obtain es where "har_entries (JObj obj) = Inr es" "\<not> truthy es"
    by (auto simp: har_entries_shapes)
  then show "parse_har_file W p = Inr EMPTY_HAR_RESULT"
    using a by (simp add: parse_har_file_def ebind_def)
qed

text \<open>
  C1: a file that holds valid JSON of another shape, here an array, is read without
  error, and the \<open>.get\<close> on it raises \<open>AttributeError\<close>: the look-up of the
  entries is outside the \<open>try\<close> that turns a file that cannot be read (such as a
  missing one) into the all-empty bundle.
\<close>

theorem array_capture_raises:
  "read_json example_world ''array.har'' = Some (JArr []) \<and>
   parse_har_file example_world ''array.har'' = Inl AttributeError \<and>
   read_json example_world ''missing.har'' = None \<and>
   parse_har_file example_world ''missing.har'' = Inr EMPTY_HAR_RESULT"
  by code_simp

subsection \<open>The body of the main entry\<close>

lemma decode_base64_text_empty: "decode_base64_text (JStr []) = JStr []"
  by (simp add: decode_base64_text_def b64decode_def bytes_decode_def decode_mode_def)

lemma body_text_value:
  "body_text (JObj c) =
     Inr (if map_of c ''encoding'' = Some (JStr ''base64'')
          then decode_base64_text (py_or (dict_get c ''text'' (JStr [])) (JStr []))
          else py_or (dict_get c ''text'' (JStr [])) (JStr []))"
proof -
  let ?T = "py_or (dict_get c ''text'' (JStr [])) (JStr [])"
  have enc: "(dict_get c ''encoding'' JNull = JStr ''base64'')
             = (map_of c ''encoding'' = Some (JStr ''base64''))"
    by (simp add: dict_get_def split: option.splits)
  have unfolded: "body_text (JObj c) =
      (if truthy ?T
       then Inr (if map_of c ''encoding'' = Some (JStr ''base64'') then decode_base64_text ?T else ?T)
       else Inr (JStr []))"
    using enc by (simp add: body_text_def ebind_def dict_get_def)
  show ?thesis
  proof (cases "truthy ?T")
    case True
    then show ?thesis using unfolded by simp
  next
    case False
    then have "?T = JStr []"
      by (simp add: py_or_def split: if_splits)
    then show ?thesis using unfolded False by (simp add: decode_base64_text_empty)
  qed
qed

lemma html_of_parse_entries:
  assumes "parse_entries W entries = Inr r"
  shows "\<exists>m response content.
           main_entry entries = Inr m \<and> py_get m ''response'' (JObj []) = Inr response \<and>
           py_get response ''content'' (JObj []) = Inr content \<and>
           body_text content = Inr (har_html r)"
proof -
  from assms obtain m where m: "main_entry entries = Inr m"
    unfolding parse_entries_def ebind_Inr_iff by blast
  with assms obtain rq where rq: "py_get m ''request'' (JObj []) = Inr rq"
    unfolding parse_entries_def ebind_Inr_iff by auto
  with assms m obtain rs where rs: "py_get m ''response'' (JObj []) = Inr rs"
    unfolding parse_entries_def ebind_Inr_iff by auto
  from assms m rq rs obtain ct html where
    ct: "py_get rs ''content'' (JObj []) = Inr ct" "body_text ct = Inr html" "har_html r = html"
    unfolding parse_entries_def ebind_Inr_iff by auto
  show ?thesis using m rs ct by blast
qed


lemma parse_har_file_entries:
  "read_json W p = Some har \<Longrightarrow> har_entries har = Inr entries \<Longrightarrow> truthy entries
   \<Longrightarrow> parse_har_file W p = parse_entries W entries"
  by (simp add: parse_har_file_def ebind_def)

lemma decode_base64_text_cases:
  "(b64decode s = Some bs \<longrightarrow>
      decode_base64_text (JStr s) = JStr (concat (map snd (filter fst (utf8_pieces bs))))) \<and>
   (b64decode s = None \<longrightarrow> decode_base64_text (JStr s) = JStr s) \<and>
   ((\<forall>t. v \<noteq> JStr t) \<longrightarrow> decode_base64_text v = v)"
  by (cases v) (simp_all add: decode_base64_text_def bytes_decode_def decode_mode_def)

text \<open>
  C6, as stated, fails: the body \<open>Qf9C\<close> is the base64 text of the bytes \<open>41 FF 42\<close>;
  the source decodes with \<open>errors="ignore"\<close> and the invalid byte is dropped, where
  replacing it would put U+FFFD between \<open>A\<close> and \<open>B\<close>.
\<close>

theorem invalid_bytes_dropped_not_replaced:
  "map_sum id har_html (parse_har_file example_world ''base64.har'') = Inr (JStr ''AB'') \<and>
   b64decode ''Qf9C'' = Some [CHR ''A'', CHR 0xFF, CHR ''B''] \<and>
   bytes_decode Replace [CHR ''A'', CHR 0xFF, CHR ''B'']
     = Inr [CHR ''A'', CHR 0xEF, CHR 0xBF, CHR 0xBD, CHR ''B'']"
  by code_simp

text \<open>
  C6, amended: the \<open>html\<close> of a parsed capture is the body text of the content object
  of its main entry. With the encoding \<open>base64\<close> a text that decodes is replaced by
  its decoded bytes without the pieces that are not valid UTF-8 (they are dropped, and
  nothing is raised); a text that does not decode, or is not a string, stays as it is.
  Without that encoding the text is used as it is.
\<close>

theorem body_decoded_ignoring_invalid_bytes:
  "(read_json W p = Some har \<and> har_entries har = Inr entries \<and> truthy entries \<and>
    parse_har_file W p = Inr r \<longrightarrow>
      (\<exists>m response content.
         main_entry entries = Inr m \<and> py_get m ''response'' (JObj []) = Inr response \<and>
         py_get response ''content'' (JObj []) = Inr content \<and>
         body_text content = Inr (har_html r))) \<and>
   body_text (JObj c) =
     Inr (if map_of c ''encoding'' = Some (JStr ''base64'')
          then decode_base64_text (py_or (dict_get c ''text'' (JStr [])) (JStr []))
          else py_or (dict_get c ''text'' (JStr [])) (JStr [])) \<and>
   (b64decode s = Some bs \<longrightarrow>
      decode_base64_text (JStr s) = JStr (concat (map snd (filter fst (utf8_pieces bs))))) \<and>
   (b64decode s = None \<longrightarrow> decode_base64_text (JStr s) = JStr s) \<and>
   ((\<forall>t. v \<noteq> JStr t) \<longrightarrow> decode_base64_text v = v)"
proof -
  have link: "\<exists>m response content.
         main_entry entries = Inr m \<and> py_get m ''response'' (JObj []) = Inr response \<and>
         py_get response ''content'' (JObj []) = Inr content \<and>
         body_text content = Inr (har_html r)"
    if a: "read_json W p = Some har \<and> har_entries har = Inr entries \<and> truthy entries \<and>
           parse_har_file W p = Inr r"
  proof -
    have "parse_har_file W p = parse_entries W entries"
      using a parse_har_file_entries[of W p har entries] by blast
    then have "parse_entries W entries = Inr r" using a by simp
    then show ?thesis by (rule html_of_parse_entries)
  qed
  show ?thesis
    using link body_text_value[of c] decode_base64_text_cases[of s bs v] by blast
qed


theorem body_decoded_ignoring_invalid_bytes_witness:
  "read_json example_world ''base64.har'' = Some base64_har \<and>
   har_entries base64_har = Inr base64_entries \<and>
   truthy base64_entries \<and>
   parse_har_file example_world ''base64.har'' = Inr base64_result \<and>
   body_text (JObj base64_content) = Inr (har_html base64_result) \<and>
   har_html base64_result = JStr ''AB'' \<and>
   b64decode ''Qf9C'' = Some [CHR ''A'', CHR 0xFF, CHR ''B''] \<and>
   decode_base64_text (JStr ''Qf9C'') = JStr ''AB'' \<and>
   b64decode ''Q'' = None \<and>
   decode_base64_text (JStr ''Q'') = JStr ''Q'' \<and>
   (\<forall>t. JNum 5 \<noteq> JStr t) \<and>
   decode_base64_text (JNum 5) = JNum 5 \<and>
   body_text (JObj [(''text'', JStr ''plain'')]) = Inr (JStr ''plain'')"
proof -
  have rd: "read_json example_world ''base64.har'' = Some base64_har"
    by code_simp
  have he: "har_entries base64_har = Inr base64_entries"
    by code_simp
  have te: "truthy base64_entries"
    by (simp add: base64_entries_def)
  have pe: "parse_har_file example_world ''base64.har'' = Inr base64_result"
    by code_simp
  have d1: "b64decode ''Qf9C'' = Some [CHR ''A'', CHR 0xFF, CHR ''B'']"
    by code_simp
  have d2: "b64decode ''Q'' = None"
    by code_simp
  have ns: "\<forall>t. JNum 5 \<noteq> JStr t"
    by simp
  have kept: "concat (map snd (filter fst (utf8_pieces [CHR ''A'', CHR 0xFF, CHR ''B'']))) = ''AB''"
    by code_simp
  have enc: "map_of base64_content ''encoding'' = Some (JStr ''base64'')"
    by (simp add: base64_content_def)
  have tx: "py_or (dict_get base64_content ''text'' (JStr [])) (JStr []) = JStr ''Qf9C''"
    by (simp add: base64_content_def dict_get_def py_or_def)
  have noenc: "map_of [(''text'', JStr ''plain'')] ''encoding'' \<noteq> Some (JStr ''base64'')"
    by simp
  have tx2: "py_or (dict_get [(''text'', JStr ''plain'')] ''text'' (JStr [])) (JStr []) = JStr ''plain''"
    by (simp add: dict_get_def py_or_def)
  note a = body_decoded_ignoring_invalid_bytes[where W = example_world and p = "''base64.har''"
      and har = base64_har and entries = base64_entries
      and r = base64_result and c = base64_content and s = "''Qf9C''"
      and bs = "[CHR ''A'', CHR 0xFF, CHR ''B'']" and v = "JNum 5"]
  note b = body_decoded_ignoring_invalid_bytes[where W = example_world and p = "''base64.har''"
      and har = base64_har and entries = base64_entries
      and r = base64_result and c = "[(''text'', JStr ''plain'')]" and s = "''Q''"
      and bs = "[]" and v = "JNum 5"]
  have c1: "decode_base64_text (JStr ''Qf9C'') = JStr ''AB''"
    using a d1 kept by simp
  have c2: "decode_base64_text (JStr ''Q'') = JStr ''Q''"
    using b d2 by simp
  have c3: "decode_base64_text (JNum 5) = JNum 5"
    using a ns by blast
  have c4: "body_text (JObj base64_content) = Inr (JStr ''AB'')"
    using a enc tx c1 by simp
  have c5: "body_text (JObj [(''text'', JStr ''plain'')]) = Inr (JStr ''plain'')"
    using b noenc tx2 by simp
  have h: "har_html base64_result = JStr ''AB''"
    by (simp add: base64_result_def)
  show ?thesis
    using rd he te pe d1 d2 ns c1 c2 c3 c4 c5 h by simp
qed

subsection \<open>Which input is analysed\<close>

text \<open>
  C10: with a non-empty \<open>har_path\<close>, \<open>detect_technologies\<close> is \<open>analyze_har\<close> of that
  path, whatever \<open>json_data\<close> and the signal arguments are; without one and with a
  \<open>json_data\<close> it is \<open>analyze_json\<close> of it, whatever the signal arguments are; and
  \<open>analyze_json\<close> of a dict with the key \<open>har_path\<close> is \<open>analyze_har\<close> of the text of
  its value, whatever the other keys are.
\<close>

theorem input_precedence:
  "(p \<noteq> [] \<longrightarrow>
      detect_technologies W g s (Some p) j = analyze_har W (global_detector W g) p) \<and>
   (hp = None \<or> hp = Some [] \<longrightarrow>
      detect_technologies W g s hp (Some jd) = analyze_json W (global_detector W g) jd) \<and>
   (map_of jd ''har_path'' = Some x \<longrightarrow>
      analyze_json W eng jd = analyze_har W eng (to_str W x))"
  by (auto simp: detect_technologies_def analyze_json_def)


theorem input_precedence_witness:
  "''site.har'' \<noteq> [] \<and>
   detect_technologies example_world None example_signals (Some ''site.har'') (Some example_json)
     = analyze_har example_world (global_detector example_world None) ''site.har'' \<and>
   ((Some [] :: string option) = None \<or> (Some [] :: string option) = Some []) \<and>
   detect_technologies example_world None example_signals (Some []) (Some example_json)
     = analyze_json example_world (global_detector example_world None) example_json \<and>
   map_of example_json ''har_path'' = Some (JStr ''site.har'') \<and>
   analyze_json example_world (global_detector example_world None) example_json
     = analyze_har example_world (global_detector example_world None) ''site.har'' \<and>
   map_sum id (map name)
     (fst (analyze_har example_world (global_detector example_world None) ''site.har''))
     = Inr [''ExampleCMS'', ''nginx'', ''Broken'', ''jQuery'']"
proof -
  have ne: "''site.har'' \<noteq> []"
    by simp
  have k: "map_of example_json ''har_path'' = Some (JStr ''site.har'')"
    by (simp add: example_json_def)
  have ts: "to_str example_world (JStr ''site.har'') = ''site.har''"
    by (simp add: to_str_def)
  have r: "map_sum id (map name)
     (fst (analyze_har example_world (global_detector example_world None) ''site.har''))
     = Inr [''ExampleCMS'', ''nginx'', ''Broken'', ''jQuery'']"
    by code_simp
  note a = input_precedence[where p = "''site.har''" and W = example_world and g = None
      and s = example_signals and j = "Some example_json" and hp = "Some []"
      and jd = example_json and x = "JStr ''site.har''"
      and eng = "global_detector example_world None"]
  have c1: "detect_technologies example_world None example_signals (Some ''site.har'') (Some example_json)
     = analyze_har example_world (global_detector example_world None) ''site.har''"
    using a ne by blast
  have c2: "detect_technologies example_world None example_signals (Some []) (Some example_json)
     = analyze_json example_world (global_detector example_world None) example_json"
    using a by blast
  have c3: "analyze_json example_world (global_detector example_world None) example_json
     = analyze_har example_world (global_detector example_world None) ''site.har''"
    using a k ts by simp
  show ?thesis
    using ne k r c1 c2 c3 by simp
qed

end
